theory Spec2Isabelle
  imports Complex_Main "HOL-Library.AList"
begin

section \<open>JavaScript values and strings\<close>

text \<open>
  Request inputs and response bodies are JSON values. A missing property
  (\<^verbatim>\<open>undefined\<close>) is \<open>None\<close> of \<open>json option\<close>. Numbers that occur in the
  handlers' own data are counters, so \<open>JNum\<close> carries an integer.
\<close>

datatype json =
    JNull
  | JBool bool
  | JNum int
  | JStr string
  | JArr "json list"
  | JObj "(string \<times> json) list"

text \<open>Truthiness, as used by \<^verbatim>\<open>x || y\<close>, \<^verbatim>\<open>!x\<close> and \<^verbatim>\<open>if (x)\<close>.\<close>

fun truthy :: "json option \<Rightarrow> bool" where
  "truthy None = False"
| "truthy (Some JNull) = False"
| "truthy (Some (JBool b)) = b"
| "truthy (Some (JNum n)) = (n \<noteq> 0)"
| "truthy (Some (JStr s)) = (s \<noteq> [])"
| "truthy (Some (JArr xs)) = True"
| "truthy (Some (JObj kvs)) = True"

text \<open>
  Strict equality \<^verbatim>\<open>===\<close>: equal primitives of the same type. An array or object
  parsed from a request is a fresh reference and equals nothing else.
\<close>

fun by_reference :: "json option \<Rightarrow> bool" where
  "by_reference (Some (JArr xs)) = True"
| "by_reference (Some (JObj kvs)) = True"
| "by_reference v = False"

definition strict_eq :: "json option \<Rightarrow> json option \<Rightarrow> bool" where
  "strict_eq x y = (x = y \<and> \<not> by_reference x)"

text \<open>
  Strings are byte strings. \<^verbatim>\<open>trim\<close> removes the ASCII white space characters and
  \<^verbatim>\<open>toLowerCase\<close> maps the ASCII capitals; the text the handlers match on
  (\<^verbatim>\<open>wheel_played\<close>, \<^verbatim>\<open>Spin Prize:\<close>, ...) is ASCII.
\<close>

definition is_space :: "char \<Rightarrow> bool" where
  "is_space c = (c \<in> set [CHR 0x09, CHR 0x0A, CHR 0x0B, CHR 0x0C, CHR 0x0D, CHR 0x20])"

definition trim :: "string \<Rightarrow> string" where
  "trim s = rev (dropWhile is_space (rev (dropWhile is_space s)))"

definition lower_char :: "char \<Rightarrow> char" where
  "lower_char c =
     (if (65::nat) \<le> of_char c \<and> of_char c \<le> (90::nat)
      then char_of (of_char c + (32::nat)) else c)"

definition toLowerCase :: "string \<Rightarrow> string" where
  "toLowerCase s = map lower_char s"

definition startsWith :: "string \<Rightarrow> string \<Rightarrow> bool" where
  "startsWith s p = (take (length p) s = p)"

primrec js_includes :: "string \<Rightarrow> string \<Rightarrow> bool" where
  "js_includes [] n = (n = [])"
| "js_includes (c # cs) n = (startsWith (c # cs) n \<or> js_includes cs n)"

text \<open>\<^verbatim>\<open>s.replace(n, r)\<close> with a string pattern: the first occurrence only.\<close>

primrec js_replace :: "string \<Rightarrow> string \<Rightarrow> string \<Rightarrow> string" where
  "js_replace [] n r = (if n = [] then r else [])"
| "js_replace (c # cs) n r =
     (if startsWith (c # cs) n then r @ drop (length n) (c # cs)
      else c # js_replace cs n r)"

text \<open>\<^verbatim>\<open>s.split(d)\<close> for a one-character separator: never the empty array.\<close>

primrec js_split :: "char \<Rightarrow> string \<Rightarrow> string list" where
  "js_split d [] = [[]]"
| "js_split d (c # cs) =
     (if c = d then [] # js_split d cs
      else (case js_split d cs of
              [] \<Rightarrow> [[c]]
            | w # ws \<Rightarrow> (c # w) # ws))"

fun join :: "string \<Rightarrow> string list \<Rightarrow> string" where
  "join sep [] = []"
| "join sep [x] = x"
| "join sep (x # y # ys) = x @ sep @ join sep (y # ys)"

text \<open>\<^verbatim>\<open>[...new Set(xs)]\<close>: the first occurrence of every element, in order.\<close>

definition unique :: "'a list \<Rightarrow> 'a list" where
  "unique xs = rev (remdups (rev xs))"

text \<open>\<^verbatim>\<open>String(n)\<close> and template interpolation of an integer.\<close>

fun digits :: "nat \<Rightarrow> string" where
  "digits n =
     (if n < 10 then [char_of (48 + n)]
      else digits (n div 10) @ [char_of (48 + n mod 10)])"

declare digits.simps [simp del]

definition String :: "int \<Rightarrow> string" where
  "String n = (if n < 0 then CHR ''-'' # digits (nat (- n)) else digits (nat n))"

section \<open>The Shopify store\<close>

text \<open>
  The handlers keep all their state in the Shopify store, reached through
  \<^verbatim>\<open>shopifyRequest\<close> and \<^verbatim>\<open>shopifyGraphQL\<close>. The store is modelled as a record
  that every request takes and returns; each request is appended to \<open>requests\<close>,
  so that the calls a handler makes can be read off. Requests are modelled on
  their success path.
\<close>

record customer =
  customer_id :: nat
  phone_number :: string
  tags :: "string option"
  customer_note :: "string option"

text \<open>A shop metafield of type json: an object from prize ids to a number or null.\<close>

type_synonym counters = "(string \<times> int option) list"

record metafield =
  mf_id :: nat
  mf_key :: string
  mf_value :: counters

text \<open>A metaobject: its id and its fields, a field's value possibly null.\<close>

record metaobject =
  mo_id :: string
  mo_fields :: "(string \<times> string option) list"

datatype request =
    GetMetafields string
  | PostMetafield string counters
  | PutMetafield nat counters
  | SearchCustomers string
  | PostCustomer string
  | PutCustomerTags nat string
  | PutCustomerNote nat string
  | QueryMetaobjects
  | MetaobjectUpdate string "(string \<times> string) list"

record shop =
  customers :: "customer list"
  metafields :: "metafield list"
  metaobjects :: "metaobject list"
  next_id :: nat
  requests :: "request list"

definition sent :: "request \<Rightarrow> shop \<Rightarrow> shop" where
  "sent r s = s\<lparr>requests := requests s @ [r]\<rparr>"

datatype response = Reply nat json

definition server_error :: "string \<Rightarrow> response" where
  "server_error msg =
     Reply 500 (JObj [(''error'', JStr ''server error''), (''details'', JStr msg)])"

section \<open>Customers and their tags (index.js)\<close>

definition findCustomerByPhone :: "string \<Rightarrow> shop \<Rightarrow> customer option \<times> shop" where
  "findCustomerByPhone ph s =
     (find (\<lambda>c. phone_number c = ph) (customers s), sent (SearchCustomers ph) s)"

definition createCustomerWithPhone :: "string \<Rightarrow> shop \<Rightarrow> customer \<times> shop" where
  "createCustomerWithPhone ph s =
     (let c = \<lparr>customer_id = next_id s, phone_number = ph, tags = Some [],
                customer_note = Some ''Created for wheel spin''\<rparr>
      in (c, sent (PostCustomer ph)
               (s\<lparr>customers := customers s @ [c], next_id := Suc (next_id s)\<rparr>)))"

definition updateCustomerTags :: "nat \<Rightarrow> string \<Rightarrow> shop \<Rightarrow> shop" where
  "updateCustomerTags cid ts s =
     sent (PutCustomerTags cid ts)
       (s\<lparr>customers :=
            map (\<lambda>c. if customer_id c = cid then c\<lparr>tags := Some ts\<rparr> else c) (customers s)\<rparr>)"

definition putCustomerNote :: "nat \<Rightarrow> string \<Rightarrow> shop \<Rightarrow> shop" where
  "putCustomerNote cid n s =
     sent (PutCustomerNote cid n)
       (s\<lparr>customers :=
            map (\<lambda>c. if customer_id c = cid then c\<lparr>customer_note := Some n\<rparr> else c) (customers s)\<rparr>)"

definition existingTags :: "customer \<Rightarrow> string list" where
  "existingTags c =
     (case tags c of
        None \<Rightarrow> []
      | Some t \<Rightarrow> if t = [] then [] else map trim (js_split CHR '','' t))"

definition currentDate :: "string \<Rightarrow> string" where
  "currentDate now = (case js_split CHR ''T'' now of [] \<Rightarrow> [] | d # ds \<Rightarrow> d)"

definition addPrizeToCustomer ::
  "customer \<Rightarrow> string \<Rightarrow> string \<Rightarrow> int \<Rightarrow> string \<Rightarrow> shop \<Rightarrow> shop" where
  "addPrizeToCustomer c prizeId prizeLabel prizeNumber now s =
     (let spinPrizeTag = ''Spin Prize: '' @ prizeLabel;
          spinDateTag = ''Spin Date: '' @ currentDate now;
          prizeNumberTag = ''Prize Number: '' @ String prizeNumber;
          internalTag = ''wheel_prize:'' @ prizeId;
          playedTag = ''wheel_played'';
          newTags = existingTags c
                    @ [spinPrizeTag, spinDateTag, prizeNumberTag, internalTag, playedTag];
          uniqueTags = join '', '' (unique newTags);
          s1 = updateCustomerTags (customer_id c) uniqueTags s
      in putCustomerNote (customer_id c)
           (''Wheel Spin Prize: '' @ prizeLabel @ '' (#'' @ String prizeNumber @ '') on '' @ now)
           s1)"

definition hasPlayedWheel :: "customer \<Rightarrow> bool" where
  "hasPlayedWheel c =
     (case tags c of
        None \<Rightarrow> False
      | Some t \<Rightarrow>
          if t = [] then False
          else js_includes (toLowerCase t) ''wheel_played''
               \<or> js_includes (toLowerCase t) ''wheel_prize:'')"

definition tagValue :: "string \<Rightarrow> string \<Rightarrow> string" where
  "tagValue t p = trim (js_replace t p [])"

definition getPrizeFromTags :: "customer \<Rightarrow> json option" where
  "getPrizeFromTags c =
     (case tags c of
        None \<Rightarrow> None
      | Some t \<Rightarrow>
          if t = [] then None
          else
            (let ts = map trim (js_split CHR '','' t);
                 spinPrizeTag = find (\<lambda>t. startsWith t ''Spin Prize:'') ts;
                 spinDateTag = find (\<lambda>t. startsWith t ''Spin Date:'') ts;
                 prizeNumberTag = find (\<lambda>t. startsWith t ''Prize Number:'') ts
             in case spinPrizeTag of
                  None \<Rightarrow> None
                | Some sp \<Rightarrow>
                    Some (JObj
                      [(''label'', JStr (tagValue sp ''Spin Prize:'')),
                       (''date'', case spinDateTag of
                                    None \<Rightarrow> JNull
                                  | Some d \<Rightarrow> JStr (tagValue d ''Spin Date:'')),
                       (''number'', case prizeNumberTag of
                                      None \<Rightarrow> JNull
                                    | Some n \<Rightarrow> JStr (tagValue n ''Prize Number:''))])))"

definition alreadyPlayed :: "json option \<Rightarrow> response" where
  "alreadyPlayed prizeInfo =
     Reply 200 (JObj
       [(''alreadyPlayed'', JBool True),
        (''prize'', case prizeInfo of
                      None \<Rightarrow> JObj [(''label'', JStr ''Already Played'')]
                    | Some p \<Rightarrow> p)])"

section \<open>Prizes and the weighted selection\<close>

text \<open>
  A prize of the \<^verbatim>\<open>PRIZES\<close> array: \<^verbatim>\<open>id\<close>, \<^verbatim>\<open>label\<close>, \<^verbatim>\<open>prob\<close> and \<^verbatim>\<open>max\<close>
  (null for an unlimited prize). Weights are real numbers.
\<close>

record prize =
  prize_id :: string
  label :: string
  prob :: real
  max_count :: "int option"

definition PRIZES :: "prize list" where
  "PRIZES =
     [\<lparr>prize_id = ''kivo_easy_lite'', label = ''Kivo Easy Lite'', prob = 0.001, max_count = Some 1\<rparr>,
      \<lparr>prize_id = ''1gm_gold_coin'', label = ''1gm Gold Coin'', prob = 0.05, max_count = Some 5\<rparr>,
      \<lparr>prize_id = ''free_helmet'', label = ''Free Helmet Rs.2000'', prob = 0.33, max_count = Some 20\<rparr>,
      \<lparr>prize_id = ''mobile_holder'', label = ''Mobile Holder'', prob = 0.30, max_count = Some 20\<rparr>,
      \<lparr>prize_id = ''water_bottle'', label = ''Water Bottle + Cap'', prob = 0.30, max_count = Some 20\<rparr>,
      \<lparr>prize_id = ''better_luck'', label = ''Better Luck Next Time'', prob = 0.01, max_count = None\<rparr>]"

text \<open>
  The selection of both \<^verbatim>\<open>/spin\<close> handlers, on a non-empty \<open>available\<close>;
  \<open>u\<close> is the value of \<^verbatim>\<open>Math.random()\<close>.
  \<^verbatim>\<open>
    const totalProb = available.reduce((sum, p) => sum + p.prob, 0);
    let r = Math.random() * totalProb;
    let cumulative = 0;
    let chosen = available[available.length - 1];
    for (const p of available) {
      cumulative += p.prob;
      if (r <= cumulative) { chosen = p; break; }
    }
  \<close>
\<close>

definition totalProb :: "'a prize_scheme list \<Rightarrow> real" where
  "totalProb available = foldl (\<lambda>sum p. sum + prob p) 0 available"

primrec walk :: "real \<Rightarrow> real \<Rightarrow> 'a prize_scheme list \<Rightarrow> 'a prize_scheme option" where
  "walk r cumulative [] = None"
| "walk r cumulative (p # ps) =
     (if r \<le> cumulative + prob p then Some p else walk r (cumulative + prob p) ps)"

definition chosenPrize :: "real \<Rightarrow> 'a prize_scheme list \<Rightarrow> 'a prize_scheme" where
  "chosenPrize r available = (case walk r 0 available of None \<Rightarrow> last available | Some p \<Rightarrow> p)"

definition weightedSelection :: "real \<Rightarrow> 'a prize_scheme list \<Rightarrow> 'a prize_scheme" where
  "weightedSelection u available = chosenPrize (u * totalProb available) available"

section \<open>Prize counts in shop metafields (index.js)\<close>

definition SHOP_METAFIELD_KEY :: string where
  "SHOP_METAFIELD_KEY = ''prize_counts''"

definition PRIZE_DISTRIBUTION_KEY :: string where
  "PRIZE_DISTRIBUTION_KEY = ''prize_distribution''"

definition getMetafields :: "string \<Rightarrow> shop \<Rightarrow> metafield list \<times> shop" where
  "getMetafields k s = (filter (\<lambda>m. mf_key m = k) (metafields s), sent (GetMetafields k) s)"

definition postMetafield :: "string \<Rightarrow> counters \<Rightarrow> shop \<Rightarrow> metafield \<times> shop" where
  "postMetafield k v s =
     (let m = \<lparr>mf_id = next_id s, mf_key = k, mf_value = v\<rparr>
      in (m, sent (PostMetafield k v)
               (s\<lparr>metafields := metafields s @ [m], next_id := Suc (next_id s)\<rparr>)))"

definition putMetafield :: "nat \<Rightarrow> counters \<Rightarrow> shop \<Rightarrow> shop" where
  "putMetafield i v s =
     sent (PutMetafield i v)
       (s\<lparr>metafields :=
            map (\<lambda>m. if mf_id m = i then m\<lparr>mf_value := v\<rparr> else m) (metafields s)\<rparr>)"

text \<open>\<^verbatim>\<open>PRIZES.forEach(p => obj[p.id] = f(p))\<close> on an empty object.\<close>

definition forEachPrize :: "(prize \<Rightarrow> int option) \<Rightarrow> counters" where
  "forEachPrize f = fold (\<lambda>p obj. AList.update (prize_id p) (f p) obj) PRIZES []"

definition ensureShopPrizeCounts :: "shop \<Rightarrow> metafield \<times> shop" where
  "ensureShopPrizeCounts s =
     (case getMetafields SHOP_METAFIELD_KEY s of
        (mf # mfs, s1) \<Rightarrow> (mf, s1)
      | ([], s1) \<Rightarrow> postMetafield SHOP_METAFIELD_KEY (forEachPrize max_count) s1)"

definition ensurePrizeDistribution :: "shop \<Rightarrow> metafield \<times> shop" where
  "ensurePrizeDistribution s =
     (case getMetafields PRIZE_DISTRIBUTION_KEY s of
        (mf # mfs, s1) \<Rightarrow> (mf, s1)
      | ([], s1) \<Rightarrow> postMetafield PRIZE_DISTRIBUTION_KEY (forEachPrize (\<lambda>p. Some 0)) s1)"

definition setShopPrizeCounts :: "counters \<Rightarrow> nat \<Rightarrow> shop \<Rightarrow> shop" where
  "setShopPrizeCounts countObj metafieldId s = putMetafield metafieldId countObj s"

text \<open>\<^verbatim>\<open>distribution[prizeId] || 0\<close>: a missing, null or zero entry counts as 0.\<close>

definition distributed :: "counters \<Rightarrow> string \<Rightarrow> int" where
  "distributed distribution prizeId =
     (case map_of distribution prizeId of Some (Some n) \<Rightarrow> n | _ \<Rightarrow> 0)"

definition incrementPrizeDistribution :: "string \<Rightarrow> metafield \<Rightarrow> shop \<Rightarrow> int \<times> shop" where
  "incrementPrizeDistribution prizeId distributionMf s =
     (let n = distributed (mf_value distributionMf) prizeId + 1;
          distribution = AList.update prizeId (Some n) (mf_value distributionMf)
      in (n, putMetafield (mf_id distributionMf) distribution s))"

text \<open>\<^verbatim>\<open>counts[p.id] === null || counts[p.id] > 0\<close>; a missing entry is undefined.\<close>

definition isAvailable :: "counters \<Rightarrow> prize \<Rightarrow> bool" where
  "isAvailable counts p =
     (case map_of counts (prize_id p) of
        None \<Rightarrow> False
      | Some None \<Rightarrow> True
      | Some (Some n) \<Rightarrow> 0 < n)"

text \<open>
  The count update of the chosen prize. An entry that is not null is decremented
  and written; on a missing entry \<^verbatim>\<open>Math.max(0, undefined - 1)\<close> is NaN, which
  the JSON text stores as null.
\<close>

definition updateCounts :: "prize \<Rightarrow> metafield \<Rightarrow> shop \<Rightarrow> shop" where
  "updateCounts chosen shopMf s =
     (case map_of (mf_value shopMf) (prize_id chosen) of
        Some None \<Rightarrow> s
      | Some (Some n) \<Rightarrow>
          setShopPrizeCounts
            (AList.update (prize_id chosen) (Some (max 0 (n - 1))) (mf_value shopMf))
            (mf_id shopMf) s
      | None \<Rightarrow>
          setShopPrizeCounts
            (AList.update (prize_id chosen) None (mf_value shopMf)) (mf_id shopMf) s)"

section \<open>The handlers of index.js\<close>

text \<open>
  \<^verbatim>\<open>(req.body.phone || '').trim()\<close>: a falsy value gives the empty string, a string
  is trimmed, and any other truthy value has no \<^verbatim>\<open>trim\<close> method, which is a
  TypeError (\<open>None\<close>) that the handler's \<^verbatim>\<open>catch\<close> turns into status 500.
\<close>

fun phoneOf :: "json option \<Rightarrow> string option" where
  "phoneOf (Some (JStr p)) = Some (trim p)"
| "phoneOf v = (if truthy v then None else Some (trim []))"

definition phone_required :: response where
  "phone_required = Reply 400 (JObj [(''error'', JStr ''phone required'')])"

definition unauthorized :: response where
  "unauthorized = Reply 403 (JObj [(''error'', JStr ''Unauthorized'')])"

definition prizeReply :: "(string \<times> json) list \<Rightarrow> response" where
  "prizeReply p = Reply 200 (JObj [(''prize'', JObj p)])"

text \<open>
  The \<^verbatim>\<open>/spin\<close> handler after the participation gate: read both metafields,
  filter the available prizes, take the fallback or the weighted selection,
  update the counters and tag the customer.
\<close>

definition draw :: "customer \<Rightarrow> real \<Rightarrow> string \<Rightarrow> shop \<Rightarrow> response \<times> shop" where
  "draw customer u now s =
     (case ensureShopPrizeCounts s of (shopMf, s1) \<Rightarrow>
     (case ensurePrizeDistribution s1 of (distributionMf, s2) \<Rightarrow>
       (let available = filter (isAvailable (mf_value shopMf)) PRIZES in
        if available = [] then
          (case find (\<lambda>p. prize_id p = ''better_luck'') PRIZES of
             None \<Rightarrow> (server_error ''Cannot read properties of undefined (reading 'id')'', s2)
           | Some fallback \<Rightarrow>
               (case incrementPrizeDistribution (prize_id fallback) distributionMf s2 of
                  (prizeNumber, s3) \<Rightarrow>
                    (prizeReply [(''label'', JStr (label fallback)),
                                 (''number'', JNum prizeNumber)],
                     addPrizeToCustomer customer (prize_id fallback) (label fallback)
                       prizeNumber now s3)))
        else
          (let chosen = weightedSelection u available;
               s3 = updateCounts chosen shopMf s2
           in case incrementPrizeDistribution (prize_id chosen) distributionMf s3 of
                (prizeNumber, s4) \<Rightarrow>
                  (prizeReply [(''id'', JStr (prize_id chosen)),
                               (''label'', JStr (label chosen)),
                               (''number'', JNum prizeNumber)],
                   addPrizeToCustomer customer (prize_id chosen) (label chosen)
                     prizeNumber now s4)))))"

definition spin :: "json option \<Rightarrow> real \<Rightarrow> string \<Rightarrow> shop \<Rightarrow> response \<times> shop" where
  "spin body_phone u now s =
     (case phoneOf body_phone of
        None \<Rightarrow> (server_error ''(req.body.phone || \"\").trim is not a function'', s)
      | Some phone \<Rightarrow>
          if phone = [] then (phone_required, s)
          else
            (case findCustomerByPhone phone s of
               (Some customer, s1) \<Rightarrow>
                 if hasPlayedWheel customer
                 then (alreadyPlayed (getPrizeFromTags customer), s1)
                 else draw customer u now s1
             | (None, s1) \<Rightarrow>
                 (case createCustomerWithPhone phone s1 of
                    (customer, s2) \<Rightarrow> draw customer u now s2)))"

text \<open>The admin handlers; \<open>env\<close> is \<^verbatim>\<open>process.env.ADMIN_RESET_KEY\<close>.\<close>

definition counter_json :: "int option \<Rightarrow> json" where
  "counter_json v = (case v of None \<Rightarrow> JNull | Some n \<Rightarrow> JNum n)"

definition keyMismatch :: "json option \<Rightarrow> string option \<Rightarrow> bool" where
  "keyMismatch adminKey env = (\<not> strict_eq adminKey (map_option JStr env))"

definition reset_prizes :: "string option \<Rightarrow> json option \<Rightarrow> shop \<Rightarrow> response \<times> shop" where
  "reset_prizes env adminKey s =
     (if keyMismatch adminKey env then (unauthorized, s)
      else
        (case ensureShopPrizeCounts s of (shopMf, s1) \<Rightarrow>
          (let resetCounts = forEachPrize max_count
           in (Reply 200 (JObj
                 [(''success'', JBool True),
                  (''message'', JStr ''Prize counts reset successfully''),
                  (''newCounts'', JObj (map (\<lambda>(k, v). (k, counter_json v)) resetCounts))]),
               setShopPrizeCounts resetCounts (mf_id shopMf) s1))))"

text \<open>A property whose value is undefined is left out of the JSON text.\<close>

definition statsEntry :: "counters \<Rightarrow> counters \<Rightarrow> prize \<Rightarrow> json" where
  "statsEntry counts distribution p =
     JObj ([(''id'', JStr (prize_id p)),
            (''label'', JStr (label p)),
            (''maxAvailable'', counter_json (max_count p))]
           @ (case map_of counts (prize_id p) of
                None \<Rightarrow> []
              | Some v \<Rightarrow> [(''remaining'', counter_json v)])
           @ [(''totalDistributed'', JNum (distributed distribution (prize_id p)))])"

definition stats :: "string option \<Rightarrow> json option \<Rightarrow> shop \<Rightarrow> response \<times> shop" where
  "stats env adminKey s =
     (if keyMismatch adminKey env then (unauthorized, s)
      else
        (case ensureShopPrizeCounts s of (shopMf, s1) \<Rightarrow>
        (case ensurePrizeDistribution s1 of (distributionMf, s2) \<Rightarrow>
          (Reply 200 (JObj
             [(''stats'',
               JArr (map (statsEntry (mf_value shopMf) (mf_value distributionMf)) PRIZES))]),
           s2))))"

section \<open>Prizes in metaobjects (the metaobject variant of the server)\<close>

text \<open>
  The second server file keeps the whole catalog in \<^verbatim>\<open>wheel_prize\<close> metaobjects
  and reads it afresh on every request. Its functions carry the suffix \<open>_mo\<close>
  where index.js has one of the same name.
\<close>

subsection \<open>Numbers in field values\<close>

text \<open>
  \<^verbatim>\<open>parseInt(s)\<close> without a radix: leading white space, a sign, a \<^verbatim>\<open>0x\<close> prefix
  for base 16, then the longest run of digits; NaN (\<open>None\<close>) when there is none.
\<close>

definition digit_val :: "char \<Rightarrow> nat" where
  "digit_val c =
     (let n = (of_char c :: nat)
      in if 48 \<le> n \<and> n \<le> 57 then n - 48
         else if 97 \<le> n \<and> n \<le> 122 then n - 87
         else if 65 \<le> n \<and> n \<le> 90 then n - 55
         else 36)"

definition radix_value :: "nat \<Rightarrow> string \<Rightarrow> nat" where
  "radix_value R ds = foldl (\<lambda>acc c. acc * R + digit_val c) 0 ds"

definition parse_digits :: "nat \<Rightarrow> string \<Rightarrow> nat option" where
  "parse_digits R s =
     (let ds = takeWhile (\<lambda>c. digit_val c < R) s
      in if ds = [] then None else Some (radix_value R ds))"

definition parse_unsigned :: "string \<Rightarrow> nat option" where
  "parse_unsigned s =
     (if startsWith s ''0x'' \<or> startsWith s ''0X'' then parse_digits 16 (drop 2 s)
      else parse_digits 10 s)"

definition parseInt :: "string \<Rightarrow> int option" where
  "parseInt s =
     (case dropWhile is_space s of
        [] \<Rightarrow> None
      | c # cs \<Rightarrow>
          if c = CHR ''-'' then map_option (\<lambda>n. - int n) (parse_unsigned cs)
          else if c = CHR ''+'' then map_option int (parse_unsigned cs)
          else map_option int (parse_unsigned (c # cs)))"

definition String_bool :: "bool \<Rightarrow> string" where
  "String_bool b = (if b then ''true'' else ''false'')"

text \<open>
  The floating-point library functions the file calls are parameters:
  \<^verbatim>\<open>parseFloat\<close> (\<open>None\<close> for NaN) and \<^verbatim>\<open>x.toFixed(2)\<close>.
\<close>

record js_float =
  parseFloat :: "string \<Rightarrow> real option"
  toFixed2 :: "real \<Rightarrow> string"

subsection \<open>Customers and their tags\<close>

definition addPrizeToCustomer_mo :: "customer \<Rightarrow> string \<Rightarrow> string \<Rightarrow> shop \<Rightarrow> shop" where
  "addPrizeToCustomer_mo c prizeLabel now s =
     (let spinPrizeTag = ''Spin Prize: '' @ prizeLabel;
          spinDateTag = ''Spin Date: '' @ currentDate now;
          newTags = existingTags c @ [spinPrizeTag, spinDateTag];
          uniqueTags = join '', '' (unique newTags);
          s1 = updateCustomerTags (customer_id c) uniqueTags s
      in putCustomerNote (customer_id c)
           (''Wheel Spin Prize: '' @ prizeLabel @ '' on '' @ now) s1)"

definition hasPlayedWheel_mo :: "customer \<Rightarrow> bool" where
  "hasPlayedWheel_mo c =
     (case tags c of
        None \<Rightarrow> False
      | Some t \<Rightarrow> if t = [] then False else js_includes (toLowerCase t) ''spin prize:'')"

definition getPrizeFromTags_mo :: "customer \<Rightarrow> json option" where
  "getPrizeFromTags_mo c =
     (case tags c of
        None \<Rightarrow> None
      | Some t \<Rightarrow>
          if t = [] then None
          else
            (let ts = map trim (js_split CHR '','' t);
                 spinPrizeTag = find (\<lambda>t. startsWith t ''Spin Prize:'') ts;
                 spinDateTag = find (\<lambda>t. startsWith t ''Spin Date:'') ts
             in case spinPrizeTag of
                  None \<Rightarrow> None
                | Some sp \<Rightarrow>
                    Some (JObj
                      [(''label'', JStr (tagValue sp ''Spin Prize:'')),
                       (''date'', case spinDateTag of
                                    None \<Rightarrow> JNull
                                  | Some d \<Rightarrow> JStr (tagValue d ''Spin Date:''))])))"

subsection \<open>Reading and writing the metaobjects\<close>

text \<open>The query asks for the first 50 metaobjects of type \<^verbatim>\<open>wheel_prize\<close>.\<close>

definition getAllWheelPrizeMetaobjects :: "shop \<Rightarrow> metaobject list option \<times> shop" where
  "getAllWheelPrizeMetaobjects s = (Some (take 50 (metaobjects s)), sent QueryMetaobjects s)"

definition getFieldValue :: "metaobject \<Rightarrow> string \<Rightarrow> string option" where
  "getFieldValue mo k =
     (case find (\<lambda>f. fst f = k) (mo_fields mo) of None \<Rightarrow> None | Some f \<Rightarrow> snd f)"

definition setFields :: "(string \<times> string) list \<Rightarrow> metaobject \<Rightarrow> metaobject" where
  "setFields updates mo =
     mo\<lparr>mo_fields := fold (\<lambda>(k, v) fs. AList.update k (Some v) fs) updates (mo_fields mo)\<rparr>"

definition updatePrizeMetaobject :: "string \<Rightarrow> (string \<times> string) list \<Rightarrow> shop \<Rightarrow> shop" where
  "updatePrizeMetaobject metaobjectId updates s =
     sent (MetaobjectUpdate metaobjectId updates)
       (s\<lparr>metaobjects :=
            map (\<lambda>mo. if mo_id mo = metaobjectId then setFields updates mo else mo)
              (metaobjects s)\<rparr>)"

record mo_prize = prize +
  remaining :: "int option"
  totalDistributed :: int
  metaobjectId :: string

text \<open>A count field: empty, \<^verbatim>\<open>-1\<close>, unparsable and negative values do not count.\<close>

definition parseCount :: "string option \<Rightarrow> int option" where
  "parseCount str =
     (case str of
        None \<Rightarrow> None
      | Some v \<Rightarrow>
          if v \<noteq> [] \<and> v \<noteq> ''-1''
          then (case parseInt v of
                  None \<Rightarrow> None
                | Some parsed \<Rightarrow> if 0 \<le> parsed then Some parsed else None)
          else None)"

definition parseProb :: "js_float \<Rightarrow> string option \<Rightarrow> real" where
  "parseProb lib probStr =
     (let prob =
        (case probStr of
           None \<Rightarrow> 1
         | Some v \<Rightarrow>
             if v = [] then 1
             else (case parseFloat lib v of
                     None \<Rightarrow> 1
                   | Some x \<Rightarrow> if x < 0 then 1 else x / 100))
      in if 1 < prob then 1 else prob)"

text \<open>One metaobject of the \<^verbatim>\<open>forEach\<close> of \<^verbatim>\<open>loadPrizesFromMetaobjects\<close>.\<close>

definition loadPrize :: "js_float \<Rightarrow> metaobject \<Rightarrow> mo_prize option" where
  "loadPrize lib mo =
     (case (getFieldValue mo ''prize_id'', getFieldValue mo ''prize_label'') of
        (Some i, Some l) \<Rightarrow>
          if i = [] \<or> l = [] then None
          else
            (let max = parseCount (getFieldValue mo ''max_count'');
                 remaining0 =
                   (case parseCount (getFieldValue mo ''remaining_count'') of
                      None \<Rightarrow> max
                    | Some parsed \<Rightarrow> Some parsed);
                 remaining1 =
                   (case (max, remaining0) of
                      (Some m, Some r) \<Rightarrow> if m < r then Some m else Some r
                    | _ \<Rightarrow> remaining0);
                 total =
                   (case getFieldValue mo ''total_distributed'' of
                      None \<Rightarrow> 0
                    | Some v \<Rightarrow> (case parseInt v of None \<Rightarrow> 0 | Some n \<Rightarrow> n))
             in Some \<lparr>prize_id = i, label = l,
                      prob = parseProb lib (getFieldValue mo ''probability''),
                      max_count = max,
                      remaining = (if max = None then None else remaining1),
                      totalDistributed = total,
                      metaobjectId = mo_id mo\<rparr>)
      | _ \<Rightarrow> None)"

definition loadPrizesFromMetaobjects :: "js_float \<Rightarrow> shop \<Rightarrow> (string + mo_prize list) \<times> shop" where
  "loadPrizesFromMetaobjects lib s =
     (case getAllWheelPrizeMetaobjects s of
        (None, s1) \<Rightarrow>
          (Inl ''No metaobjects found. Please create prize metaobjects in Shopify Admin first.'', s1)
      | (Some mos, s1) \<Rightarrow>
          if mos = []
          then (Inl ''No metaobjects found. Please create prize metaobjects in Shopify Admin first.'', s1)
          else
            (let prizes = List.map_filter (loadPrize lib) mos
             in if prizes = []
                then (Inl ''No valid prizes found in metaobjects. Check prize_id and prize_label fields.'', s1)
                else (Inr prizes, s1)))"

definition getCurrentPrizes :: "js_float \<Rightarrow> shop \<Rightarrow> (string + mo_prize list) \<times> shop" where
  "getCurrentPrizes lib s = loadPrizesFromMetaobjects lib s"

text \<open>The \<^verbatim>\<open>updates\<close> array that \<^verbatim>\<open>updatePrizeAfterSpin\<close> builds.\<close>

definition spinUpdates :: "mo_prize \<Rightarrow> string \<Rightarrow> (string \<times> string) list" where
  "spinUpdates prize now =
     (case remaining prize of
        Some r \<Rightarrow>
          (let newRemaining = max 0 (r - 1)
           in [(''remaining_count'', String newRemaining),
               (''is_available'', String_bool (0 < newRemaining))])
      | None \<Rightarrow> [(''is_available'', ''true'')])
     @ [(''total_distributed'', String (totalDistributed prize + 1)),
        (''last_updated'', now)]"

definition updatePrizeAfterSpin :: "mo_prize \<Rightarrow> string \<Rightarrow> shop \<Rightarrow> int \<times> shop" where
  "updatePrizeAfterSpin prize now s =
     (let newTotal = totalDistributed prize + 1
      in (newTotal, updatePrizeMetaobject (metaobjectId prize) (spinUpdates prize now) s))"

subsection \<open>The handlers\<close>

text \<open>\<^verbatim>\<open>p.remaining === null || p.remaining > 0\<close>\<close>

definition isAvailable_mo :: "mo_prize \<Rightarrow> bool" where
  "isAvailable_mo p = (case remaining p of None \<Rightarrow> True | Some n \<Rightarrow> 0 < n)"

text \<open>\<^verbatim>\<open>PRIZES.find(p => p.id === 'better_luck') || PRIZES[PRIZES.length - 1]\<close>\<close>

definition fallbackPrize :: "mo_prize list \<Rightarrow> mo_prize" where
  "fallbackPrize prizes =
     (case find (\<lambda>p. prize_id p = ''better_luck'') prizes of
        None \<Rightarrow> last prizes
      | Some p \<Rightarrow> p)"

definition draw_mo ::
  "js_float \<Rightarrow> customer \<Rightarrow> real \<Rightarrow> string \<Rightarrow> shop \<Rightarrow> response \<times> shop" where
  "draw_mo lib customer u now s =
     (case getCurrentPrizes lib s of
        (Inl msg, s1) \<Rightarrow> (server_error msg, s1)
      | (Inr prizes, s1) \<Rightarrow>
          (let available = filter isAvailable_mo prizes in
           if available = [] then
             (let fallback = fallbackPrize prizes
              in case updatePrizeAfterSpin fallback now s1 of
                   (prizeNumber, s2) \<Rightarrow>
                     (prizeReply [(''label'', JStr (label fallback)),
                                  (''number'', JNum prizeNumber)],
                      addPrizeToCustomer_mo customer (label fallback) now s2))
           else
             (let chosen = weightedSelection u available
              in case updatePrizeAfterSpin chosen now s1 of
                   (prizeNumber, s2) \<Rightarrow>
                     (prizeReply [(''id'', JStr (prize_id chosen)),
                                  (''label'', JStr (label chosen)),
                                  (''number'', JNum prizeNumber)],
                      addPrizeToCustomer_mo customer (label chosen) now s2))))"

definition spin_mo ::
  "js_float \<Rightarrow> json option \<Rightarrow> real \<Rightarrow> string \<Rightarrow> shop \<Rightarrow> response \<times> shop" where
  "spin_mo lib body_phone u now s =
     (case phoneOf body_phone of
        None \<Rightarrow> (server_error ''(req.body.phone || \"\").trim is not a function'', s)
      | Some phone \<Rightarrow>
          if phone = [] then (phone_required, s)
          else
            (case findCustomerByPhone phone s of
               (Some customer, s1) \<Rightarrow>
                 if hasPlayedWheel_mo customer
                 then (alreadyPlayed (getPrizeFromTags_mo customer), s1)
                 else draw_mo lib customer u now s1
             | (None, s1) \<Rightarrow>
                 (case createCustomerWithPhone phone s1 of
                    (customer, s2) \<Rightarrow> draw_mo lib customer u now s2)))"

text \<open>The body of the reset loop, for one prize, and the fields it writes.\<close>

definition resetUpdates :: "string \<Rightarrow> mo_prize \<Rightarrow> (string \<times> string) list" where
  "resetUpdates now prize =
     [(''remaining_count'', String (case max_count prize of None \<Rightarrow> - 1 | Some m \<Rightarrow> m)),
      (''is_available'',
         String_bool (case max_count prize of None \<Rightarrow> True | Some m \<Rightarrow> 0 < m)),
      (''last_updated'', now)]"

definition resetPrize :: "string \<Rightarrow> mo_prize \<Rightarrow> shop \<Rightarrow> shop" where
  "resetPrize now prize s =
     updatePrizeMetaobject (metaobjectId prize) (resetUpdates now prize) s"

definition reset_prizes_mo ::
  "js_float \<Rightarrow> string option \<Rightarrow> json option \<Rightarrow> string \<Rightarrow> shop \<Rightarrow> response \<times> shop" where
  "reset_prizes_mo lib env adminKey now s =
     (if keyMismatch adminKey env then (unauthorized, s)
      else
        (case getCurrentPrizes lib s of
           (Inl msg, s1) \<Rightarrow> (server_error msg, s1)
         | (Inr prizes, s1) \<Rightarrow>
             (Reply 200 (JObj
                [(''success'', JBool True),
                 (''message'', JStr ''Prize counts reset to max_count values'')]),
              fold (resetPrize now) prizes s1)))"

definition statsEntry_mo :: "js_float \<Rightarrow> mo_prize \<Rightarrow> json" where
  "statsEntry_mo lib p =
     JObj [(''id'', JStr (prize_id p)),
           (''label'', JStr (label p)),
           (''probability'', JStr (toFixed2 lib (prob p * 100) @ ''%'')),
           (''maxCount'', counter_json (max_count p)),
           (''remaining'', counter_json (remaining p)),
           (''totalDistributed'', JNum (totalDistributed p)),
           (''isAvailable'', JBool (isAvailable_mo p))]"

definition stats_mo ::
  "js_float \<Rightarrow> string option \<Rightarrow> json option \<Rightarrow> shop \<Rightarrow> response \<times> shop" where
  "stats_mo lib env adminKey s =
     (if keyMismatch adminKey env then (unauthorized, s)
      else
        (case getCurrentPrizes lib s of
           (Inl msg, s1) \<Rightarrow> (Reply 500 (JObj [(''error'', JStr ''server error'')]), s1)
         | (Inr prizes, s1) \<Rightarrow>
             (Reply 200 (JObj [(''stats'', JArr (map (statsEntry_mo lib) prizes))]), s1)))"

section \<open>Sample stores\<close>

text \<open>A shop with no customers, metafields or metaobjects yet.\<close>

definition emptyShop :: shop where
  "emptyShop = \<lparr>customers = [], metafields = [], metaobjects = [], next_id = 1, requests = []\<rparr>"

text \<open>
  The catalog of the scenario in the specification: prize A with weight 0.5 and
  cap 1, and the unlimited prize B with weight 0.5.
\<close>

definition scenarioShop :: shop where
  "scenarioShop =
     \<lparr>customers = [],
      metafields = [],
      metaobjects =
        [\<lparr>mo_id = ''gid://shopify/Metaobject/1'',
           mo_fields = [(''prize_id'', Some ''A''), (''prize_label'', Some ''Prize A''),
                        (''probability'', Some ''50''), (''max_count'', Some ''1''),
                        (''remaining_count'', Some ''1''), (''total_distributed'', Some ''0'')]\<rparr>,
         \<lparr>mo_id = ''gid://shopify/Metaobject/2'',
           mo_fields = [(''prize_id'', Some ''B''), (''prize_label'', Some ''Prize B''),
                        (''probability'', Some ''50''), (''max_count'', Some ''-1''),
                        (''remaining_count'', Some ''-1''), (''total_distributed'', Some ''0'')]\<rparr>],
      next_id = 1,
      requests = []\<rparr>"

text \<open>A stand-in for the floating-point functions that reads whole percentages.\<close>

definition wholePercent :: js_float where
  "wholePercent =
     \<lparr>parseFloat = (\<lambda>s. map_option real_of_int (parseInt s)),
      toFixed2 = (\<lambda>x. String (floor x) @ ''.00'')\<rparr>"


definition playedShop_mo :: shop where
  "playedShop_mo =
     snd (spin_mo wholePercent (Some (JStr ''999'')) (1/5) ''2025-01-02T03:04:05.000Z'' scenarioShop)"



section \<open>Notions of the specification\<close>


text \<open>
  What a handler reads from the store: the prize counts and the distribution
  counters of index.js (the initial values when the metafield does not exist
  yet), and the catalog of the metaobject variant.
\<close>

definition countsOf :: "shop \<Rightarrow> counters" where
  "countsOf s = mf_value (fst (ensureShopPrizeCounts s))"

definition distributionOf :: "shop \<Rightarrow> counters" where
  "distributionOf s = mf_value (fst (ensurePrizeDistribution s))"

definition catalogOf :: "js_float \<Rightarrow> shop \<Rightarrow> string + mo_prize list" where
  "catalogOf lib s = fst (getCurrentPrizes lib s)"

text \<open>
  A well-formed store: the ids of the metafields are distinct and below the
  next free id, and the ids of the metaobjects are distinct.
\<close>

definition wf_shop :: "shop \<Rightarrow> bool" where
  "wf_shop s =
     (distinct (map mf_id (metafields s))
      \<and> list_all (\<lambda>i. i < next_id s) (map mf_id (metafields s))
      \<and> distinct (map mo_id (metaobjects s)))"

text \<open>The metafields that \<^verbatim>\<open>ensureShopPrizeCounts\<close> and \<^verbatim>\<open>ensurePrizeDistribution\<close> find.\<close>

definition counts_mf :: "shop \<Rightarrow> metafield option" where
  "counts_mf s = find (\<lambda>m. mf_key m = SHOP_METAFIELD_KEY) (metafields s)"

definition distribution_mf :: "shop \<Rightarrow> metafield option" where
  "distribution_mf s = find (\<lambda>m. mf_key m = PRIZE_DISTRIBUTION_KEY) (metafields s)"

text \<open>
  A participant who may still play: no customer has the phone, or the customer
  found does not carry the played marker.
\<close>

definition notPlayed :: "shop \<Rightarrow> string \<Rightarrow> bool" where
  "notPlayed s ph =
     (case find (\<lambda>c. phone_number c = ph) (customers s) of
        None \<Rightarrow> True
      | Some c \<Rightarrow> \<not> hasPlayedWheel c)"

definition notPlayed_mo :: "shop \<Rightarrow> string \<Rightarrow> bool" where
  "notPlayed_mo s ph =
     (case find (\<lambda>c. phone_number c = ph) (customers s) of
        None \<Rightarrow> True
      | Some c \<Rightarrow> \<not> hasPlayedWheel_mo c)"

text \<open>
  One award applied to a catalog entry (\<open>applyAward\<close> of the specification): the
  remaining count, if there is one, goes down by one but not below 0, and the
  distribution counter goes up by one. \<open>awardTo x\<close> applies it to the entry
  of the metaobject of \<open>x\<close> and leaves every other entry as it is.
\<close>

definition applyAward :: "mo_prize \<Rightarrow> mo_prize" where
  "applyAward p =
     p\<lparr>remaining := map_option (\<lambda>r. max 0 (r - 1)) (remaining p),
       totalDistributed := totalDistributed p + 1\<rparr>"

definition awardTo :: "mo_prize \<Rightarrow> mo_prize \<Rightarrow> mo_prize" where
  "awardTo x p = (if metaobjectId p = metaobjectId x then applyAward p else p)"

text \<open>The reset of one catalog entry (\<open>resetToMax\<close>): remaining back to the cap.\<close>

definition resetToMax :: "mo_prize \<Rightarrow> mo_prize" where
  "resetToMax p = p\<lparr>remaining := max_count p\<rparr>"

text \<open>
  The remaining count and the distribution counter that \<open>loadPrize\<close> computes,
  as functions of the parsed cap, the parsed \<^verbatim>\<open>remaining_count\<close> and the text of
  \<^verbatim>\<open>total_distributed\<close>.
\<close>

definition loadedRemaining :: "int option \<Rightarrow> int option \<Rightarrow> int option" where
  "loadedRemaining cap parsed =
     (case cap of
        None \<Rightarrow> None
      | Some m \<Rightarrow> (case parsed of None \<Rightarrow> Some m | Some r \<Rightarrow> if m < r then Some m else Some r))"

definition loadedTotal :: "string option \<Rightarrow> int" where
  "loadedTotal str =
     (case str of None \<Rightarrow> 0 | Some v \<Rightarrow> (case parseInt v of None \<Rightarrow> 0 | Some n \<Rightarrow> n))"

text \<open>The catalog that the metaobject variant loads from \<open>scenarioShop\<close>.\<close>

definition prizeA :: mo_prize where
  "prizeA =
     \<lparr>prize_id = ''A'', label = ''Prize A'', prob = 1/2, max_count = Some 1,
      remaining = Some 1, totalDistributed = 0,
      metaobjectId = ''gid://shopify/Metaobject/1''\<rparr>"

definition prizeB :: mo_prize where
  "prizeB =
     \<lparr>prize_id = ''B'', label = ''Prize B'', prob = 1/2, max_count = None,
      remaining = None, totalDistributed = 0,
      metaobjectId = ''gid://shopify/Metaobject/2''\<rparr>"

text \<open>
  The prize that a spin awards to a participant who has not played: the
  fallback when no prize is available, the weighted selection otherwise
  (in index.js by its id, in the metaobject variant the catalog entry).
\<close>

definition awardedId :: "real \<Rightarrow> counters \<Rightarrow> string" where
  "awardedId u counts =
     (if filter (isAvailable counts) PRIZES = [] then ''better_luck''
      else prize_id (weightedSelection u (filter (isAvailable counts) PRIZES)))"

definition awarded_mo :: "real \<Rightarrow> mo_prize list \<Rightarrow> mo_prize" where
  "awarded_mo u prizes =
     (if filter isAvailable_mo prizes = [] then fallbackPrize prizes
      else weightedSelection u (filter isAvailable_mo prizes))"






text \<open>
  A run of spin requests, each with its phone, its random number and its time,
  served one after the other.
\<close>

fun spins :: "(json option \<times> real \<times> string) list \<Rightarrow> shop \<Rightarrow> shop" where
  "spins [] s = s"
| "spins ((phone, u, now) # rest) s = spins rest (snd (spin phone u now s))"

fun spins_mo :: "js_float \<Rightarrow> (json option \<times> real \<times> string) list \<Rightarrow> shop \<Rightarrow> shop" where
  "spins_mo lib [] s = s"
| "spins_mo lib ((phone, u, now) # rest) s = spins_mo lib rest (snd (spin_mo lib phone u now s))"

text \<open>
  The store of index.js after the first participant has won the one
  \<^verbatim>\<open>kivo_easy_lite\<close>, and a run of two later spins.
\<close>

definition kivoGoneShop :: shop where
  "kivoGoneShop = snd (spin (Some (JStr ''111'')) (1/2000) ''2025-01-02T03:04:05.000Z'' emptyShop)"

definition laterSpins :: "(json option \<times> real \<times> string) list" where
  "laterSpins =
     [(Some (JStr ''222''), 0, ''2025-01-03T03:04:05.000Z''),
      (Some (JStr ''333''), 1/2, ''2025-01-04T03:04:05.000Z'')]"

text \<open>
  The record that a write request sends, as the source builds its \<^verbatim>\<open>data\<close>
  object: field names and values. A metafield is written whole, as its id,
  its JSON value and its type; a metaobject update sends the fields to change.
\<close>

definition counters_json :: "counters \<Rightarrow> json" where
  "counters_json obj = JObj (map (\<lambda>(k, v). (k, counter_json v)) obj)"

fun written_fields :: "request \<Rightarrow> (string \<times> json) list" where
  "written_fields (PutMetafield i v) =
     [(''id'', JNum (int i)), (''value'', counters_json v), (''type'', JStr ''json'')]"
| "written_fields (PostMetafield k v) =
     [(''namespace'', JStr ''wheel_spin''), (''key'', JStr k), (''type'', JStr ''json''),
      (''value'', counters_json v)]"
| "written_fields (MetaobjectUpdate i updates) = map (\<lambda>(k, v). (k, JStr v)) updates"
| "written_fields (PostCustomer ph) =
     [(''phone'', JStr ph), (''verified_email'', JBool False),
      (''note'', JStr ''Created for wheel spin'')]"
| "written_fields (PutCustomerTags cid ts) = [(''id'', JNum (int cid)), (''tags'', JStr ts)]"
| "written_fields (PutCustomerNote cid n) = [(''id'', JNum (int cid)), (''note'', JStr n)]"
| "written_fields (GetMetafields k) = []"
| "written_fields (SearchCustomers ph) = []"
| "written_fields QueryMetaobjects = []"

text \<open>The writes of inventory counters: a metafield put and a metaobject update.\<close>

fun is_counter_write :: "request \<Rightarrow> bool" where
  "is_counter_write (PutMetafield i v) = True"
| "is_counter_write (MetaobjectUpdate i updates) = True"
| "is_counter_write r = False"

text \<open>
  A request carries a last-updated timestamp when the record it sends, or the
  JSON value of the metafield it sends, has a field \<^verbatim>\<open>last_updated\<close>.
\<close>

fun value_keys :: "request \<Rightarrow> string list" where
  "value_keys (PutMetafield i v) = map fst v"
| "value_keys (PostMetafield k v) = map fst v"
| "value_keys r = []"

definition stamped :: "request \<Rightarrow> bool" where
  "stamped r = (''last_updated'' \<in> set (map fst (written_fields r) @ value_keys r))"

text \<open>A request that, if it writes counters, sends \<^verbatim>\<open>last_updated\<close> with the time \<open>now\<close>.\<close>

definition stampedWrite :: "string \<Rightarrow> request \<Rightarrow> bool" where
  "stampedWrite now r =
     (if is_counter_write r then (''last_updated'', JStr now) \<in> set (written_fields r) else True)"

text \<open>The requests that a handler sent when it took the store from \<open>s\<close> to \<open>s'\<close>.\<close>

definition issued :: "shop \<Rightarrow> shop \<Rightarrow> request list" where
  "issued s s' = drop (length (requests s)) (requests s')"

section \<open>Request validation\<close>





section \<open>The admin key\<close>

lemma reset_prizes_gate:
  "(fst (reset_prizes env adminKey s) = Reply 403 (JObj [(''error'', JStr ''Unauthorized'')]))
     = (\<not> strict_eq adminKey (map_option JStr env))"
  by (simp add: reset_prizes_def unauthorized_def keyMismatch_def Let_def split: prod.splits)

lemma stats_gate:
  "(fst (stats env adminKey s) = Reply 403 (JObj [(''error'', JStr ''Unauthorized'')]))
     = (\<not> strict_eq adminKey (map_option JStr env))"
  by (simp add: stats_def unauthorized_def keyMismatch_def split: prod.splits)

lemma reset_prizes_mo_gate:
  "(fst (reset_prizes_mo lib env adminKey now s) = Reply 403 (JObj [(''error'', JStr ''Unauthorized'')]))
     = (\<not> strict_eq adminKey (map_option JStr env))"
  by (simp add: reset_prizes_mo_def unauthorized_def keyMismatch_def server_error_def
      split: prod.splits sum.splits)

lemma stats_mo_gate:
  "(fst (stats_mo lib env adminKey s) = Reply 403 (JObj [(''error'', JStr ''Unauthorized'')]))
     = (\<not> strict_eq adminKey (map_option JStr env))"
  by (simp add: stats_mo_def unauthorized_def keyMismatch_def server_error_def
      split: prod.splits sum.splits)

lemma gate_rejects_unchanged:
  "\<not> strict_eq adminKey (map_option JStr env) \<Longrightarrow>
     snd (reset_prizes env adminKey s) = s \<and> snd (stats env adminKey s) = s
     \<and> snd (reset_prizes_mo lib env adminKey now s) = s \<and> snd (stats_mo lib env adminKey s) = s"
  by (simp add: reset_prizes_def stats_def reset_prizes_mo_def stats_mo_def keyMismatch_def)

lemma no_key_reset:
  "reset_prizes None None s =
     (Reply 200 (JObj
         [(''success'', JBool True),
          (''message'', JStr ''Prize counts reset successfully''),
          (''newCounts'', JObj (map (\<lambda>(k, v). (k, counter_json v)) (forEachPrize max_count)))]),
      setShopPrizeCounts (forEachPrize max_count) (mf_id (fst (ensureShopPrizeCounts s)))
        (snd (ensureShopPrizeCounts s)))"
  by (simp add: reset_prizes_def keyMismatch_def strict_eq_def Let_def split: prod.splits)


lemma no_key_stats:
  "stats None None s =
     (Reply 200 (JObj
        [(''stats'',
          JArr (map (statsEntry (mf_value (fst (ensureShopPrizeCounts s)))
                       (mf_value (fst (ensurePrizeDistribution (snd (ensureShopPrizeCounts s))))))
                  PRIZES))]),
      snd (ensurePrizeDistribution (snd (ensureShopPrizeCounts s))))"
  by (simp add: stats_def keyMismatch_def strict_eq_def split: prod.splits)

lemma no_key_reset_mo:
  "reset_prizes_mo lib None None now s =
     (case getCurrentPrizes lib s of
        (Inl msg, s1) \<Rightarrow> (server_error msg, s1)
      | (Inr prizes, s1) \<Rightarrow>
          (Reply 200 (JObj
             [(''success'', JBool True),
              (''message'', JStr ''Prize counts reset to max_count values'')]),
           fold (resetPrize now) prizes s1))"
  by (simp add: reset_prizes_mo_def keyMismatch_def strict_eq_def)

lemma no_key_stats_mo:
  "stats_mo lib None None s =
     (case getCurrentPrizes lib s of
        (Inl msg, s1) \<Rightarrow> (Reply 500 (JObj [(''error'', JStr ''server error'')]), s1)
      | (Inr prizes, s1) \<Rightarrow>
          (Reply 200 (JObj [(''stats'', JArr (map (statsEntry_mo lib) prizes))]), s1))"
  by (simp add: stats_mo_def keyMismatch_def strict_eq_def)

text \<open>
  Claim C10. The admin gate of the reset and the statistics handler, in both
  servers, is the strict comparison of the supplied \<^verbatim>\<open>adminKey\<close> with
  \<^verbatim>\<open>process.env.ADMIN_RESET_KEY\<close>: the answer is 403 Unauthorized exactly when
  the two differ. When the variable is unset and the request carries no key,
  both are undefined, the comparison succeeds, and the handlers go on to their
  work with no credential at all.
\<close>

theorem admin_key_gate:
  "((fst (reset_prizes env adminKey s) = Reply 403 (JObj [(''error'', JStr ''Unauthorized'')]))
      = (\<not> strict_eq adminKey (map_option JStr env)))
   \<and> ((fst (stats env adminKey s) = Reply 403 (JObj [(''error'', JStr ''Unauthorized'')]))
      = (\<not> strict_eq adminKey (map_option JStr env)))
   \<and> ((fst (reset_prizes_mo lib env adminKey now s) = Reply 403 (JObj [(''error'', JStr ''Unauthorized'')]))
      = (\<not> strict_eq adminKey (map_option JStr env)))
   \<and> ((fst (stats_mo lib env adminKey s) = Reply 403 (JObj [(''error'', JStr ''Unauthorized'')]))
      = (\<not> strict_eq adminKey (map_option JStr env)))
   \<and> strict_eq None (map_option JStr None)
   \<and> reset_prizes None None s =
       (Reply 200 (JObj
          [(''success'', JBool True),
           (''message'', JStr ''Prize counts reset successfully''),
           (''newCounts'', JObj (map (\<lambda>(k, v). (k, counter_json v)) (forEachPrize max_count)))]),
        setShopPrizeCounts (forEachPrize max_count) (mf_id (fst (ensureShopPrizeCounts s)))
          (snd (ensureShopPrizeCounts s)))
   \<and> stats None None s =
       (Reply 200 (JObj
          [(''stats'',
            JArr (map (statsEntry (mf_value (fst (ensureShopPrizeCounts s)))
                         (mf_value (fst (ensurePrizeDistribution (snd (ensureShopPrizeCounts s))))))
                    PRIZES))]),
        snd (ensurePrizeDistribution (snd (ensureShopPrizeCounts s))))
   \<and> reset_prizes_mo lib None None now s =
       (case getCurrentPrizes lib s of
          (Inl msg, s1) \<Rightarrow> (server_error msg, s1)
        | (Inr prizes, s1) \<Rightarrow>
            (Reply 200 (JObj
               [(''success'', JBool True),
                (''message'', JStr ''Prize counts reset to max_count values'')]),
             fold (resetPrize now) prizes s1))
   \<and> stats_mo lib None None s =
       (case getCurrentPrizes lib s of
          (Inl msg, s1) \<Rightarrow> (Reply 500 (JObj [(''error'', JStr ''server error'')]), s1)
        | (Inr prizes, s1) \<Rightarrow>
            (Reply 200 (JObj [(''stats'', JArr (map (statsEntry_mo lib) prizes))]), s1))"
  using reset_prizes_gate [of env adminKey s] stats_gate [of env adminKey s]
    reset_prizes_mo_gate [of lib env adminKey now s] stats_mo_gate [of lib env adminKey s]
    no_key_reset [of s] no_key_stats [of s] no_key_reset_mo [of lib now s] no_key_stats_mo [of lib s]
  by (simp add: strict_eq_def)

theorem admin_key_gate_witness:
  "fst (reset_prizes (Some ''secret'') None emptyShop)
       = Reply 403 (JObj [(''error'', JStr ''Unauthorized'')])
   \<and> fst (stats (Some ''secret'') (Some (JStr ''guess'')) emptyShop)
       = Reply 403 (JObj [(''error'', JStr ''Unauthorized'')])
   \<and> fst (reset_prizes (Some ''secret'') (Some (JStr ''secret'')) emptyShop)
       \<noteq> Reply 403 (JObj [(''error'', JStr ''Unauthorized'')])
   \<and> fst (reset_prizes None None emptyShop)
       \<noteq> Reply 403 (JObj [(''error'', JStr ''Unauthorized'')])
   \<and> fst (reset_prizes_mo wholePercent None None ''2025-01-02T03:04:05.000Z'' scenarioShop)
       \<noteq> Reply 403 (JObj [(''error'', JStr ''Unauthorized'')])"
proof -
  have a: "fst (reset_prizes (Some ''secret'') None emptyShop)
       = Reply 403 (JObj [(''error'', JStr ''Unauthorized'')])"
    using admin_key_gate [where env = "Some ''secret''" and adminKey = None, THEN conjunct1]
    by (simp add: strict_eq_def)
  have b: "fst (stats (Some ''secret'') (Some (JStr ''guess'')) emptyShop)
       = Reply 403 (JObj [(''error'', JStr ''Unauthorized'')])"
    using admin_key_gate [where env = "Some ''secret''" and adminKey = "Some (JStr ''guess'')", THEN conjunct2, THEN conjunct1]
    by (simp add: strict_eq_def)
  have c: "fst (reset_prizes (Some ''secret'') (Some (JStr ''secret'')) emptyShop)
       \<noteq> Reply 403 (JObj [(''error'', JStr ''Unauthorized'')])"
    using admin_key_gate [where env = "Some ''secret''" and adminKey = "Some (JStr ''secret'')", THEN conjunct1]
    by (simp add: strict_eq_def)
  have d: "fst (reset_prizes None None emptyShop)
       \<noteq> Reply 403 (JObj [(''error'', JStr ''Unauthorized'')])"
    using admin_key_gate [where env = None and adminKey = None, THEN conjunct1]
    by (simp add: strict_eq_def)
  have e: "fst (reset_prizes_mo wholePercent None None ''2025-01-02T03:04:05.000Z'' scenarioShop)
       \<noteq> Reply 403 (JObj [(''error'', JStr ''Unauthorized'')])"
    using admin_key_gate [where env = None and adminKey = None, THEN conjunct2, THEN conjunct2, THEN conjunct1]
    by (simp add: strict_eq_def)
  from a b c d e show ?thesis by blast
qed

section \<open>The participation gate\<close>






section \<open>The weighted selection\<close>





lemma walk_in_set: "walk r c ps = Some p \<Longrightarrow> p \<in> set ps"
  by (induction ps arbitrary: c) (auto split: if_splits)

lemma chosenPrize_in_set: "available \<noteq> [] \<Longrightarrow> chosenPrize r available \<in> set available"
  by (auto simp: chosenPrize_def dest: walk_in_set split: option.splits)

lemma weightedSelection_in_set:
  "available \<noteq> [] \<Longrightarrow> weightedSelection u available \<in> set available"
  by (simp add: weightedSelection_def chosenPrize_in_set)



lemma distribution_after_counts:
  "mf_value (fst (ensurePrizeDistribution (snd (ensureShopPrizeCounts s)))) = distributionOf s"
  by (auto simp: distributionOf_def ensurePrizeDistribution_def ensureShopPrizeCounts_def
      getMetafields_def postMetafield_def sent_def Let_def SHOP_METAFIELD_KEY_def
      PRIZE_DISTRIBUTION_KEY_def split: list.splits)

lemma draw_reply:
  assumes "filter (isAvailable (countsOf s)) PRIZES = available" and "available \<noteq> []"
  shows "fst (draw customer u now s) =
           prizeReply [(''id'', JStr (prize_id (weightedSelection u available))),
                       (''label'', JStr (label (weightedSelection u available))),
                       (''number'', JNum (distributed (distributionOf s)
                                            (prize_id (weightedSelection u available)) + 1))]"
  using assms distribution_after_counts [of s]
  by (simp add: draw_def countsOf_def incrementPrizeDistribution_def Let_def case_prod_unfold)

lemma draw_mo_reply:
  assumes "catalogOf lib s = Inr prizes"
    and "filter isAvailable_mo prizes = available" and "available \<noteq> []"
  shows "fst (draw_mo lib customer u now s) =
           prizeReply [(''id'', JStr (prize_id (weightedSelection u available))),
                       (''label'', JStr (label (weightedSelection u available))),
                       (''number'', JNum (totalDistributed (weightedSelection u available) + 1))]"
  using assms
  by (cases "getCurrentPrizes lib s")
    (simp add: draw_mo_def catalogOf_def updatePrizeAfterSpin_def Let_def case_prod_unfold)





section \<open>The effect of a draw on the metafields (index.js)\<close>

lemma find_map_invariant:
  "(\<And>x. Q (f x) = Q x) \<Longrightarrow> find Q (map f xs) = map_option f (find Q xs)"
  by (induction xs) simp_all

lemma filter_of_find_Some: "find P xs = Some x \<Longrightarrow> \<exists>ys. filter P xs = x # ys"
  by (induction xs) (auto split: if_splits)

lemma filter_of_find_None: "find P xs = None \<Longrightarrow> filter P xs = []"
  by (induction xs) (auto split: if_splits)

lemma find_append_new:
  "find P (xs @ [x]) = (case find P xs of None \<Rightarrow> (if P x then Some x else None) | Some y \<Rightarrow> Some y)"
  by (induction xs) simp_all

lemma ensureShopPrizeCounts_found:
  "counts_mf s = Some mf \<Longrightarrow> ensureShopPrizeCounts s = (mf, sent (GetMetafields SHOP_METAFIELD_KEY) s)"
  using filter_of_find_Some [of "\<lambda>m. mf_key m = SHOP_METAFIELD_KEY" "metafields s" mf]
  by (auto simp: ensureShopPrizeCounts_def getMetafields_def counts_mf_def)

lemma ensureShopPrizeCounts_missing:
  "counts_mf s = None \<Longrightarrow>
     ensureShopPrizeCounts s =
       postMetafield SHOP_METAFIELD_KEY (forEachPrize max_count) (sent (GetMetafields SHOP_METAFIELD_KEY) s)"
  using filter_of_find_None [of "\<lambda>m. mf_key m = SHOP_METAFIELD_KEY" "metafields s"]
  by (simp add: ensureShopPrizeCounts_def getMetafields_def counts_mf_def sent_def)

lemma ensurePrizeDistribution_found:
  "distribution_mf s = Some mf \<Longrightarrow>
     ensurePrizeDistribution s = (mf, sent (GetMetafields PRIZE_DISTRIBUTION_KEY) s)"
  using filter_of_find_Some [of "\<lambda>m. mf_key m = PRIZE_DISTRIBUTION_KEY" "metafields s" mf]
  by (auto simp: ensurePrizeDistribution_def getMetafields_def distribution_mf_def)

lemma ensurePrizeDistribution_missing:
  "distribution_mf s = None \<Longrightarrow>
     ensurePrizeDistribution s =
       postMetafield PRIZE_DISTRIBUTION_KEY (forEachPrize (\<lambda>p. Some 0))
         (sent (GetMetafields PRIZE_DISTRIBUTION_KEY) s)"
  using filter_of_find_None [of "\<lambda>m. mf_key m = PRIZE_DISTRIBUTION_KEY" "metafields s"]
  by (simp add: ensurePrizeDistribution_def getMetafields_def distribution_mf_def sent_def)


lemma countsOf_alt:
  "countsOf s = (case counts_mf s of None \<Rightarrow> forEachPrize max_count | Some mf \<Rightarrow> mf_value mf)"
  by (cases "counts_mf s")
    (simp_all add: countsOf_def ensureShopPrizeCounts_found ensureShopPrizeCounts_missing
      postMetafield_def Let_def)

lemma distributionOf_alt:
  "distributionOf s =
     (case distribution_mf s of None \<Rightarrow> forEachPrize (\<lambda>p. Some 0) | Some mf \<Rightarrow> mf_value mf)"
  by (cases "distribution_mf s")
    (simp_all add: distributionOf_def ensurePrizeDistribution_found ensurePrizeDistribution_missing
      postMetafield_def Let_def)

lemma keys_differ: "SHOP_METAFIELD_KEY \<noteq> PRIZE_DISTRIBUTION_KEY"
  by (simp add: SHOP_METAFIELD_KEY_def PRIZE_DISTRIBUTION_KEY_def)

lemma sent_fields [simp]:
  "customers (sent r s) = customers s" "metafields (sent r s) = metafields s"
  "metaobjects (sent r s) = metaobjects s" "next_id (sent r s) = next_id s"
  "requests (sent r s) = requests s @ [r]"
  by (simp_all add: sent_def)

lemma sent_mf [simp]:
  "counts_mf (sent r s) = counts_mf s" "distribution_mf (sent r s) = distribution_mf s"
  "wf_shop (sent r s) = wf_shop s"
  by (simp_all add: counts_mf_def distribution_mf_def wf_shop_def)

lemma ensureShopPrizeCounts_props:
  assumes "wf_shop s"
  shows "wf_shop (snd (ensureShopPrizeCounts s))
       \<and> counts_mf (snd (ensureShopPrizeCounts s)) = Some (fst (ensureShopPrizeCounts s))
       \<and> mf_value (fst (ensureShopPrizeCounts s)) = countsOf s
       \<and> distribution_mf (snd (ensureShopPrizeCounts s)) = distribution_mf s
       \<and> customers (snd (ensureShopPrizeCounts s)) = customers s
       \<and> metaobjects (snd (ensureShopPrizeCounts s)) = metaobjects s"
proof (cases "counts_mf s")
  case None
  have fresh: "next_id s \<notin> mf_id ` set (metafields s)"
    using assms by (auto simp: wf_shop_def list_all_iff)
  have less: "list_all (\<lambda>i. i < Suc (next_id s)) (map mf_id (metafields s))"
    using assms by (auto simp: wf_shop_def list_all_iff)
  from None fresh less assms show ?thesis
    using keys_differ
    by (simp add: ensureShopPrizeCounts_missing postMetafield_def Let_def countsOf_alt
        counts_mf_def distribution_mf_def find_append_new wf_shop_def split: option.splits)
next
  case (Some mf)
  with assms show ?thesis
    by (simp add: ensureShopPrizeCounts_found countsOf_alt)
qed

lemma ensurePrizeDistribution_props:
  assumes "wf_shop s"
  shows "wf_shop (snd (ensurePrizeDistribution s))
       \<and> distribution_mf (snd (ensurePrizeDistribution s)) = Some (fst (ensurePrizeDistribution s))
       \<and> mf_value (fst (ensurePrizeDistribution s)) = distributionOf s
       \<and> counts_mf (snd (ensurePrizeDistribution s)) = counts_mf s
       \<and> customers (snd (ensurePrizeDistribution s)) = customers s
       \<and> metaobjects (snd (ensurePrizeDistribution s)) = metaobjects s"
proof (cases "distribution_mf s")
  case None
  have fresh: "next_id s \<notin> mf_id ` set (metafields s)"
    using assms by (auto simp: wf_shop_def list_all_iff)
  have less: "list_all (\<lambda>i. i < Suc (next_id s)) (map mf_id (metafields s))"
    using assms by (auto simp: wf_shop_def list_all_iff)
  from None fresh less assms show ?thesis
    using keys_differ
    by (simp add: ensurePrizeDistribution_missing postMetafield_def Let_def distributionOf_alt
        counts_mf_def distribution_mf_def find_append_new wf_shop_def split: option.splits)
next
  case (Some mf)
  with assms show ?thesis
    by (simp add: ensurePrizeDistribution_found distributionOf_alt)
qed

lemma wf_ids_differ:
  assumes "wf_shop s" "counts_mf s = Some a" "distribution_mf s = Some b"
  shows "mf_id a \<noteq> mf_id b"
proof -
  from assms(2) have a: "a \<in> set (metafields s)" "mf_key a = SHOP_METAFIELD_KEY"
    by (auto simp: counts_mf_def find_Some_iff)
  from assms(3) have b: "b \<in> set (metafields s)" "mf_key b = PRIZE_DISTRIBUTION_KEY"
    by (auto simp: distribution_mf_def find_Some_iff)
  from a b keys_differ have "a \<noteq> b" by auto
  moreover from assms(1) have "inj_on mf_id (set (metafields s))"
    by (simp add: wf_shop_def distinct_map)
  ultimately show ?thesis using a(1) b(1) by (auto dest: inj_onD)
qed

lemma putMetafield_props:
  "counts_mf (putMetafield i v s) =
     map_option (\<lambda>m. if mf_id m = i then m\<lparr>mf_value := v\<rparr> else m) (counts_mf s)"
  "distribution_mf (putMetafield i v s) =
     map_option (\<lambda>m. if mf_id m = i then m\<lparr>mf_value := v\<rparr> else m) (distribution_mf s)"
  "wf_shop (putMetafield i v s) = wf_shop s"
  "customers (putMetafield i v s) = customers s"
  "metaobjects (putMetafield i v s) = metaobjects s"
proof -
  have ids: "map mf_id (map (\<lambda>m. if mf_id m = i then m\<lparr>mf_value := v\<rparr> else m) (metafields s))
               = map mf_id (metafields s)"
    by (induction "metafields s") auto
  show "counts_mf (putMetafield i v s) =
     map_option (\<lambda>m. if mf_id m = i then m\<lparr>mf_value := v\<rparr> else m) (counts_mf s)"
    by (simp add: putMetafield_def counts_mf_def find_map_invariant)
  show "distribution_mf (putMetafield i v s) =
     map_option (\<lambda>m. if mf_id m = i then m\<lparr>mf_value := v\<rparr> else m) (distribution_mf s)"
    by (simp add: putMetafield_def distribution_mf_def find_map_invariant)
  show "wf_shop (putMetafield i v s) = wf_shop s"
    using ids by (simp add: putMetafield_def wf_shop_def del: map_map)
  show "customers (putMetafield i v s) = customers s"
    by (simp add: putMetafield_def)
  show "metaobjects (putMetafield i v s) = metaobjects s"
    by (simp add: putMetafield_def)
qed


lemma addPrizeToCustomer_frame [simp]:
  "metafields (addPrizeToCustomer c i l n now s) = metafields s"
  "metaobjects (addPrizeToCustomer c i l n now s) = metaobjects s"
  "next_id (addPrizeToCustomer c i l n now s) = next_id s"
  by (simp_all add: addPrizeToCustomer_def updateCustomerTags_def putCustomerNote_def Let_def)

lemma addPrizeToCustomer_mf [simp]:
  "counts_mf (addPrizeToCustomer c i l n now s) = counts_mf s"
  "distribution_mf (addPrizeToCustomer c i l n now s) = distribution_mf s"
  "wf_shop (addPrizeToCustomer c i l n now s) = wf_shop s"
  by (simp_all add: counts_mf_def distribution_mf_def wf_shop_def)

lemma available_lookup:
  "p \<in> set (filter (isAvailable counts) PRIZES) \<Longrightarrow> map_of counts (prize_id p) \<noteq> None"
  by (auto simp: isAvailable_def split: option.splits)

lemma draw_effect:
  assumes wf: "wf_shop s" and av: "filter (isAvailable (countsOf s)) PRIZES \<noteq> []"
  shows "wf_shop (snd (draw c u now s))
       \<and> countsOf (snd (draw c u now s)) =
           (case map_of (countsOf s)
                   (prize_id (weightedSelection u (filter (isAvailable (countsOf s)) PRIZES))) of
              Some (Some n) \<Rightarrow>
                AList.update (prize_id (weightedSelection u (filter (isAvailable (countsOf s)) PRIZES)))
                  (Some (max 0 (n - 1))) (countsOf s)
            | _ \<Rightarrow> countsOf s)
       \<and> distributionOf (snd (draw c u now s)) =
           AList.update (prize_id (weightedSelection u (filter (isAvailable (countsOf s)) PRIZES)))
             (Some (distributed (distributionOf s)
                (prize_id (weightedSelection u (filter (isAvailable (countsOf s)) PRIZES))) + 1))
             (distributionOf s)"
proof -
  define s1 where "s1 = snd (ensureShopPrizeCounts s)"
  define cmf where "cmf = fst (ensureShopPrizeCounts s)"
  define s2 where "s2 = snd (ensurePrizeDistribution s1)"
  define dmf where "dmf = fst (ensurePrizeDistribution s1)"
  define chosen where "chosen = weightedSelection u (filter (isAvailable (countsOf s)) PRIZES)"
  have p1: "wf_shop s1" "counts_mf s1 = Some cmf" "mf_value cmf = countsOf s"
    "distribution_mf s1 = distribution_mf s"
    using ensureShopPrizeCounts_props [OF wf] by (simp_all add: s1_def cmf_def)
  have p2: "wf_shop s2" "distribution_mf s2 = Some dmf" "mf_value dmf = distributionOf s1"
    "counts_mf s2 = Some cmf"
    using ensurePrizeDistribution_props [OF p1(1)] p1(2) by (simp_all add: s2_def dmf_def)
  have dist: "distributionOf s1 = distributionOf s"
    using p1(4) by (simp add: distributionOf_alt)
  have ids: "mf_id cmf \<noteq> mf_id dmf"
    using wf_ids_differ [OF p2(1) p2(4) p2(2)] .
  have "chosen \<in> set (filter (isAvailable (countsOf s)) PRIZES)"
    unfolding chosen_def by (rule weightedSelection_in_set [OF av])
  then have look: "map_of (countsOf s) (prize_id chosen) \<noteq> None"
    by (rule available_lookup)
  have d: "draw c u now s =
      (prizeReply [(''id'', JStr (prize_id chosen)), (''label'', JStr (label chosen)),
                   (''number'', JNum (distributed (mf_value dmf) (prize_id chosen) + 1))],
       addPrizeToCustomer c (prize_id chosen) (label chosen)
         (distributed (mf_value dmf) (prize_id chosen) + 1) now
         (putMetafield (mf_id dmf)
            (AList.update (prize_id chosen)
               (Some (distributed (mf_value dmf) (prize_id chosen) + 1)) (mf_value dmf))
            (updateCounts chosen cmf s2)))"
    using av
    by (simp add: draw_def case_prod_unfold Let_def incrementPrizeDistribution_def
        s1_def [symmetric] cmf_def [symmetric] s2_def [symmetric] dmf_def [symmetric]
        p1(3) chosen_def [symmetric])
  show ?thesis
    unfolding chosen_def [symmetric]
    using look p2 ids p1(3) dist
    by (auto simp: d countsOf_alt distributionOf_alt updateCounts_def setShopPrizeCounts_def
        putMetafield_props split: option.splits)
qed


lemma better_luck: "find (\<lambda>p. prize_id p = ''better_luck'') PRIZES =
   Some \<lparr>prize_id = ''better_luck'', label = ''Better Luck Next Time'', prob = 0.01, max_count = None\<rparr>"
  by (simp add: PRIZES_def)

lemma draw_fallback_effect:
  assumes wf: "wf_shop s" and av: "filter (isAvailable (countsOf s)) PRIZES = []"
  shows "wf_shop (snd (draw c u now s))
       \<and> fst (draw c u now s) =
           prizeReply [(''label'', JStr ''Better Luck Next Time''),
                       (''number'', JNum (distributed (distributionOf s) ''better_luck'' + 1))]
       \<and> countsOf (snd (draw c u now s)) = countsOf s
       \<and> distributionOf (snd (draw c u now s)) =
           AList.update ''better_luck'' (Some (distributed (distributionOf s) ''better_luck'' + 1))
             (distributionOf s)"
proof -
  define s1 where "s1 = snd (ensureShopPrizeCounts s)"
  define cmf where "cmf = fst (ensureShopPrizeCounts s)"
  define s2 where "s2 = snd (ensurePrizeDistribution s1)"
  define dmf where "dmf = fst (ensurePrizeDistribution s1)"
  have p1: "wf_shop s1" "counts_mf s1 = Some cmf" "mf_value cmf = countsOf s"
    "distribution_mf s1 = distribution_mf s"
    using ensureShopPrizeCounts_props [OF wf] by (simp_all add: s1_def cmf_def)
  have p2: "wf_shop s2" "distribution_mf s2 = Some dmf" "mf_value dmf = distributionOf s1"
    "counts_mf s2 = Some cmf"
    using ensurePrizeDistribution_props [OF p1(1)] p1(2) by (simp_all add: s2_def dmf_def)
  have dist: "distributionOf s1 = distributionOf s"
    using p1(4) by (simp add: distributionOf_alt)
  have ids: "mf_id cmf \<noteq> mf_id dmf"
    using wf_ids_differ [OF p2(1) p2(4) p2(2)] .
  have d: "draw c u now s =
      (prizeReply [(''label'', JStr ''Better Luck Next Time''),
                   (''number'', JNum (distributed (mf_value dmf) ''better_luck'' + 1))],
       addPrizeToCustomer c ''better_luck'' ''Better Luck Next Time''
         (distributed (mf_value dmf) ''better_luck'' + 1) now
         (putMetafield (mf_id dmf)
            (AList.update ''better_luck''
               (Some (distributed (mf_value dmf) ''better_luck'' + 1)) (mf_value dmf))
            s2))"
    using av
    by (simp add: draw_def case_prod_unfold Let_def incrementPrizeDistribution_def better_luck
        s1_def [symmetric] cmf_def [symmetric] s2_def [symmetric] dmf_def [symmetric] p1(3))
  show ?thesis
    using p2 ids p1(3) dist
    by (auto simp: d countsOf_alt distributionOf_alt putMetafield_props split: option.splits)
qed

lemma createCustomer_frame:
  "metafields (snd (createCustomerWithPhone ph s)) = metafields s"
  "metaobjects (snd (createCustomerWithPhone ph s)) = metaobjects s"
  "wf_shop s \<Longrightarrow> wf_shop (snd (createCustomerWithPhone ph s))"
  by (auto simp: createCustomerWithPhone_def Let_def wf_shop_def list_all_iff)

lemma reads_depend_on_metafields:
  "metafields s' = metafields s \<Longrightarrow> countsOf s' = countsOf s \<and> distributionOf s' = distributionOf s"
  by (simp add: countsOf_alt distributionOf_alt counts_mf_def distribution_mf_def)

lemma spin_draws:
  assumes "trim p \<noteq> []" and "notPlayed s (trim p)"
  shows "\<exists>c s'. spin (Some (JStr p)) u now s = draw c u now s'
            \<and> metafields s' = metafields s \<and> metaobjects s' = metaobjects s
            \<and> (wf_shop s \<longrightarrow> wf_shop s')"
proof (cases "find (\<lambda>c. phone_number c = trim p) (customers s)")
  case None
  with assms(1) have "spin (Some (JStr p)) u now s =
      draw (fst (createCustomerWithPhone (trim p) (sent (SearchCustomers (trim p)) s))) u now
        (snd (createCustomerWithPhone (trim p) (sent (SearchCustomers (trim p)) s)))"
    by (simp add: spin_def findCustomerByPhone_def case_prod_unfold)
  then show ?thesis
    using createCustomer_frame [where ph = "trim p" and s = "sent (SearchCustomers (trim p)) s"]
    by (intro exI [of _ "fst (createCustomerWithPhone (trim p) (sent (SearchCustomers (trim p)) s))"]
        exI [of _ "snd (createCustomerWithPhone (trim p) (sent (SearchCustomers (trim p)) s))"])
      simp
next
  case (Some c)
  with assms have "spin (Some (JStr p)) u now s = draw c u now (sent (SearchCustomers (trim p)) s)"
    by (simp add: spin_def findCustomerByPhone_def notPlayed_def)
  then show ?thesis
    by (intro exI [of _ c] exI [of _ "sent (SearchCustomers (trim p)) s"]) simp
qed

section \<open>Field values written and read back (metaobject variant)\<close>

lemma digit_char: "k < 10 \<Longrightarrow> of_char (char_of (48 + k) :: char) = (48 + k :: nat)"
  by simp

lemma digits_nonempty: "digits n \<noteq> []"
  by (subst digits.simps) simp

lemma digits_decimal:
  "c \<in> set (digits n) \<Longrightarrow> (48::nat) \<le> of_char c \<and> of_char c \<le> (57::nat)"
proof (induction n rule: digits.induct)
  case (1 n)
  show ?case
  proof (cases "n < 10")
    case True
    with "1.prems" show ?thesis
      by (subst (asm) digits.simps) (simp add: digit_char)
  next
    case False
    have m: "n mod 10 < 10" by simp
    from False "1.prems" have "c \<in> set (digits (n div 10)) \<or> c = char_of (48 + n mod 10)"
      by (subst (asm) digits.simps) auto
    then show ?thesis
      using "1.IH" [OF False] digit_char [OF m] by auto
  qed
qed

lemma digit_val_decimal:
  "(48::nat) \<le> of_char c \<Longrightarrow> of_char c \<le> (57::nat) \<Longrightarrow> digit_val c = of_char c - 48"
  by (simp add: digit_val_def Let_def)

lemma radix_value_snoc: "radix_value R (ds @ [c]) = radix_value R ds * R + digit_val c"
  by (simp add: radix_value_def)

lemma radix_value_digits: "radix_value 10 (digits n) = n"
proof (induction n rule: digits.induct)
  case (1 n)
  show ?case
  proof (cases "n < 10")
    case True
    then show ?thesis
      by (subst digits.simps) (simp add: radix_value_def digit_val_def Let_def)
  next
    case False
    have m: "n mod 10 < 10" by simp
    have "digit_val (char_of (48 + n mod 10)) = n mod 10"
      using digit_char [OF m] by (simp add: digit_val_def Let_def)
    with False "1.IH" [OF False] show ?thesis
      by (subst digits.simps) (simp add: radix_value_snoc)
  qed
qed

lemma parse_digits_digits: "parse_digits 10 (digits n) = Some n"
proof -
  have "\<forall>c\<in>set (digits n). digit_val c < 10"
  proof
    fix c assume "c \<in> set (digits n)"
    then have "(48::nat) \<le> of_char c \<and> of_char c \<le> (57::nat)"
      by (rule digits_decimal)
    then show "digit_val c < 10"
      by (auto simp: digit_val_decimal)
  qed
  then have tw: "takeWhile (\<lambda>c. digit_val c < 10) (digits n) = digits n"
    by (simp add: takeWhile_eq_all_conv)
  show ?thesis
    unfolding parse_digits_def Let_def tw
    by (simp add: digits_nonempty radix_value_digits)
qed

lemma second_of_take2: "take k s = [a, b] \<Longrightarrow> b \<in> set s"
  by (metis in_set_takeD list.set_intros(1) list.set_intros(2))

lemma digits_not_hex: "\<not> startsWith (digits n) ''0x'' \<and> \<not> startsWith (digits n) ''0X''"
proof -
  have "CHR ''x'' \<notin> set (digits n)" "CHR ''X'' \<notin> set (digits n)"
    using digits_decimal [of "CHR ''x''" n] digits_decimal [of "CHR ''X''" n] by auto
  then show ?thesis
    using second_of_take2 [of "Suc (Suc 0)" "digits n" "CHR ''0''" "CHR ''x''"]
      second_of_take2 [of "Suc (Suc 0)" "digits n" "CHR ''0''" "CHR ''X''"]
    by (auto simp: startsWith_def)
qed

lemma parse_unsigned_digits: "parse_unsigned (digits n) = Some n"
  by (simp add: parse_unsigned_def digits_not_hex parse_digits_digits)

lemma digits_head:
  "\<exists>c cs. digits n = c # cs \<and> \<not> is_space c \<and> c \<noteq> CHR ''-'' \<and> c \<noteq> CHR ''+''"
proof -
  obtain c cs where d: "digits n = c # cs"
    using digits_nonempty [of n] by (cases "digits n") auto
  then have "c \<in> set (digits n)" by simp
  then have "(48::nat) \<le> of_char c" using digits_decimal by blast
  then have "\<not> is_space c \<and> c \<noteq> CHR ''-'' \<and> c \<noteq> CHR ''+''"
    by (auto simp: is_space_def)
  with d show ?thesis by blast
qed

lemma parseInt_digits: "parseInt (digits n) = Some (int n)"
proof -
  obtain c cs where d: "digits n = c # cs" "\<not> is_space c" "c \<noteq> CHR ''-''" "c \<noteq> CHR ''+''"
    using digits_head by blast
  then show ?thesis
    using parse_unsigned_digits [of n] by (simp add: parseInt_def)
qed

lemma parseInt_String: "parseInt (String n) = Some n"
proof (cases "n < 0")
  case True
  have "\<not> is_space CHR ''-''" by (simp add: is_space_def)
  with True show ?thesis
    by (simp add: String_def parseInt_def parse_unsigned_digits)
next
  case False
  then show ?thesis
    by (simp add: String_def parseInt_digits)
qed

lemma String_count: "0 \<le> n \<Longrightarrow> String n \<noteq> [] \<and> String n \<noteq> ''-1''"
  using digits_head [of "nat n"] by (auto simp: String_def)

lemma parseCount_String: "0 \<le> n \<Longrightarrow> parseCount (Some (String n)) = Some n"
  using String_count [of n] by (simp add: parseCount_def parseInt_String)

lemma parseCount_minus1: "parseCount (Some ''-1'') = None"
  by (simp add: parseCount_def)

lemma parseCount_nonneg: "parseCount v = Some n \<Longrightarrow> 0 \<le> n"
  by (auto simp: parseCount_def split: option.splits if_splits)


lemma getFieldValue_map_of:
  "getFieldValue mo k = (case map_of (mo_fields mo) k of None \<Rightarrow> None | Some v \<Rightarrow> v)"
proof -
  have "(case find (\<lambda>f. fst f = k) al of None \<Rightarrow> None | Some f \<Rightarrow> snd f)
          = (case map_of al k of None \<Rightarrow> None | Some v \<Rightarrow> v)" for al :: "(string \<times> string option) list"
    by (induction al) auto
  then show ?thesis by (simp add: getFieldValue_def)
qed

lemma map_of_fold_update:
  "map_of (fold (\<lambda>(k, v) fs. AList.update k (Some v) fs) ups al) k =
     (case map_of (rev ups) k of None \<Rightarrow> map_of al k | Some v \<Rightarrow> Some (Some v))"
proof (induction ups arbitrary: al)
  case Nil
  then show ?case by simp
next
  case (Cons u ups)
  obtain k' v' where u: "u = (k', v')" by (cases u)
  show ?case
    by (simp add: u Cons.IH update_conv' map_add_def split: option.splits)
qed

lemma getFieldValue_setFields:
  "getFieldValue (setFields ups mo) k =
     (case map_of (rev ups) k of None \<Rightarrow> getFieldValue mo k | Some v \<Rightarrow> Some v)"
  by (simp add: getFieldValue_map_of setFields_def map_of_fold_update split: option.splits)

lemma setFields_id [simp]: "mo_id (setFields ups mo) = mo_id mo"
  by (simp add: setFields_def)

lemma loadPrize_alt:
  "loadPrize lib mo =
     (case (getFieldValue mo ''prize_id'', getFieldValue mo ''prize_label'') of
        (Some i, Some l) \<Rightarrow>
          if i = [] \<or> l = [] then None
          else Some \<lparr>prize_id = i, label = l,
                     prob = parseProb lib (getFieldValue mo ''probability''),
                     max_count = parseCount (getFieldValue mo ''max_count''),
                     remaining = loadedRemaining (parseCount (getFieldValue mo ''max_count''))
                                   (parseCount (getFieldValue mo ''remaining_count'')),
                     totalDistributed = loadedTotal (getFieldValue mo ''total_distributed''),
                     metaobjectId = mo_id mo\<rparr>
      | _ \<Rightarrow> None)"
  by (simp add: loadPrize_def loadedRemaining_def loadedTotal_def Let_def
      split: option.splits prod.splits)


lemma loadedTotal_String: "loadedTotal (Some (String n)) = n"
  by (simp add: loadedTotal_def parseInt_String)

lemma loadPrize_SomeD:
  assumes "loadPrize lib mo = Some x"
  shows "metaobjectId x = mo_id mo"
    and "max_count x = parseCount (getFieldValue mo ''max_count'')"
    and "remaining x = loadedRemaining (parseCount (getFieldValue mo ''max_count''))
                         (parseCount (getFieldValue mo ''remaining_count''))"
    and "totalDistributed x = loadedTotal (getFieldValue mo ''total_distributed'')"
    and "getFieldValue mo ''prize_id'' = Some (prize_id x)"
    and "getFieldValue mo ''prize_label'' = Some (label x)"
    and "prize_id x \<noteq> []" and "label x \<noteq> []"
    and "prob x = parseProb lib (getFieldValue mo ''probability'')"
  using assms
  by (auto simp: loadPrize_alt split: option.splits if_splits)

lemma loadPrize_eqI:
  assumes "getFieldValue mo' ''prize_id'' = getFieldValue mo ''prize_id''"
    and "getFieldValue mo' ''prize_label'' = getFieldValue mo ''prize_label''"
    and "getFieldValue mo' ''probability'' = getFieldValue mo ''probability''"
    and "getFieldValue mo' ''max_count'' = getFieldValue mo ''max_count''"
    and "mo_id mo' = mo_id mo"
    and "loadPrize lib mo = Some x"
  shows "loadPrize lib mo' =
           Some (x\<lparr>remaining := loadedRemaining (max_count x)
                                   (parseCount (getFieldValue mo' ''remaining_count'')),
                   totalDistributed := loadedTotal (getFieldValue mo' ''total_distributed'')\<rparr>)"
  using assms(6)
  by (auto simp: loadPrize_alt assms(1-5) split: option.splits if_splits)

lemma loadedRemaining_bounds:
  assumes "loadedRemaining (parseCount c) (parseCount r) = Some n"
  shows "\<exists>m. parseCount c = Some m \<and> 0 \<le> n \<and> n \<le> m"
  using assms parseCount_nonneg [of c] parseCount_nonneg [of r]
  by (auto simp: loadedRemaining_def split: option.splits if_splits)

lemma loadPrize_award:
  assumes "loadPrize lib mo = Some x"
  shows "loadPrize lib (setFields (spinUpdates x now) mo) = Some (applyAward x)"
proof -
  note d = loadPrize_SomeD [OF assms]
  let ?mo' = "setFields (spinUpdates x now) mo"
  have same: "getFieldValue ?mo' ''prize_id'' = getFieldValue mo ''prize_id''"
    "getFieldValue ?mo' ''prize_label'' = getFieldValue mo ''prize_label''"
    "getFieldValue ?mo' ''probability'' = getFieldValue mo ''probability''"
    "getFieldValue ?mo' ''max_count'' = getFieldValue mo ''max_count''"
    by (simp_all add: getFieldValue_setFields spinUpdates_def Let_def split: option.splits)
  have tot: "loadedTotal (getFieldValue ?mo' ''total_distributed'') = totalDistributed x + 1"
    by (simp add: getFieldValue_setFields spinUpdates_def Let_def loadedTotal_String
        split: option.splits)
  have rem: "loadedRemaining (max_count x) (parseCount (getFieldValue ?mo' ''remaining_count''))
               = map_option (\<lambda>r. max 0 (r - 1)) (remaining x)"
  proof (cases "remaining x")
    case None
    then have "max_count x = None"
      using d(2,3) by (auto simp: loadedRemaining_def split: option.splits if_splits)
    with None show ?thesis by (simp add: loadedRemaining_def)
  next
    case (Some r)
    then obtain m where m: "max_count x = Some m" "0 \<le> r" "r \<le> m"
      using loadedRemaining_bounds [of "getFieldValue mo ''max_count''"
          "getFieldValue mo ''remaining_count''" r] d(2,3)
      by auto
    have "getFieldValue ?mo' ''remaining_count'' = Some (String (max 0 (r - 1)))"
      using Some by (simp add: getFieldValue_setFields spinUpdates_def Let_def)
    then show ?thesis
      using Some m by (auto simp: parseCount_String loadedRemaining_def max_def)
  qed
  show ?thesis
    using loadPrize_eqI [OF same setFields_id assms] tot rem
    by (simp add: applyAward_def)
qed

lemma loadPrize_reset:
  assumes "loadPrize lib mo = Some x"
  shows "loadPrize lib (setFields (resetUpdates now x) mo) = Some (resetToMax x)"
proof -
  note d = loadPrize_SomeD [OF assms]
  let ?mo' = "setFields (resetUpdates now x) mo"
  have same: "getFieldValue ?mo' ''prize_id'' = getFieldValue mo ''prize_id''"
    "getFieldValue ?mo' ''prize_label'' = getFieldValue mo ''prize_label''"
    "getFieldValue ?mo' ''probability'' = getFieldValue mo ''probability''"
    "getFieldValue ?mo' ''max_count'' = getFieldValue mo ''max_count''"
    by (simp_all add: getFieldValue_setFields resetUpdates_def)
  have tot: "loadedTotal (getFieldValue ?mo' ''total_distributed'') = totalDistributed x"
    by (simp add: getFieldValue_setFields resetUpdates_def d(4))
  have rem: "loadedRemaining (max_count x) (parseCount (getFieldValue ?mo' ''remaining_count''))
               = max_count x"
  proof (cases "max_count x")
    case None
    then show ?thesis by (simp add: loadedRemaining_def)
  next
    case (Some m)
    then have "0 \<le> m" using d(2) parseCount_nonneg [of "getFieldValue mo ''max_count''"] by simp
    then show ?thesis
      using Some
      by (simp add: getFieldValue_setFields resetUpdates_def parseCount_String loadedRemaining_def)
  qed
  show ?thesis
    using loadPrize_eqI [OF same setFields_id assms] tot rem
    by (simp add: resetToMax_def)
qed

section \<open>The effect of a draw on the catalog (metaobject variant)\<close>

lemma getCurrentPrizes_alt:
  "getCurrentPrizes lib s =
     (if take 50 (metaobjects s) = []
      then Inl ''No metaobjects found. Please create prize metaobjects in Shopify Admin first.''
      else if List.map_filter (loadPrize lib) (take 50 (metaobjects s)) = []
      then Inl ''No valid prizes found in metaobjects. Check prize_id and prize_label fields.''
      else Inr (List.map_filter (loadPrize lib) (take 50 (metaobjects s))),
      sent QueryMetaobjects s)"
  by (simp add: getCurrentPrizes_def loadPrizesFromMetaobjects_def getAllWheelPrizeMetaobjects_def
      Let_def)

lemma catalogOf_InrD:
  assumes "catalogOf lib s = Inr prizes"
  shows "prizes = List.map_filter (loadPrize lib) (take 50 (metaobjects s))"
    and "prizes \<noteq> []"
    and "getCurrentPrizes lib s = (Inr prizes, sent QueryMetaobjects s)"
  using assms by (auto simp: catalogOf_def getCurrentPrizes_alt split: if_splits)

lemma catalogOf_InrI:
  assumes "List.map_filter (loadPrize lib) (take 50 (metaobjects s)) = prizes" and "prizes \<noteq> []"
  shows "catalogOf lib s = Inr prizes"
  using assms by (auto simp: catalogOf_def getCurrentPrizes_alt List.map_filter_simps)

lemma map_filter_Cons:
  "List.map_filter f (x # xs) = (case f x of None \<Rightarrow> List.map_filter f xs | Some y \<Rightarrow> y # List.map_filter f xs)"
  by (simp add: List.map_filter_simps)

lemma loaded_from:
  "p \<in> set (List.map_filter (loadPrize lib) mos) \<Longrightarrow> \<exists>mo\<in>set mos. loadPrize lib mo = Some p"
  by (auto simp: List.map_filter_def)

lemma map_filter_map_option:
  "(\<And>mo. mo \<in> set mos \<Longrightarrow> f (g mo) = map_option h (f mo))
     \<Longrightarrow> List.map_filter f (map g mos) = map h (List.map_filter f mos)"
  by (induction mos) (auto simp: map_filter_Cons split: option.splits)

lemma distinct_id_eq:
  "distinct (map mo_id mos) \<Longrightarrow> a \<in> set mos \<Longrightarrow> b \<in> set mos \<Longrightarrow> mo_id a = mo_id b \<Longrightarrow> a = b"
  by (auto simp: distinct_map dest: inj_onD)

lemma loaded_after_award:
  assumes d: "distinct (map mo_id mos)"
    and x: "x \<in> set (List.map_filter (loadPrize lib) mos)"
  shows "List.map_filter (loadPrize lib)
           (map (\<lambda>mo. if mo_id mo = metaobjectId x then setFields (spinUpdates x now) mo else mo) mos)
         = map (awardTo x) (List.map_filter (loadPrize lib) mos)"
proof (rule map_filter_map_option)
  fix mo assume mo: "mo \<in> set mos"
  obtain mx where mx: "mx \<in> set mos" "loadPrize lib mx = Some x"
    using loaded_from [OF x] by blast
  then have idx: "metaobjectId x = mo_id mx" by (simp add: loadPrize_SomeD(1))
  show "loadPrize lib (if mo_id mo = metaobjectId x then setFields (spinUpdates x now) mo else mo)
          = map_option (awardTo x) (loadPrize lib mo)"
  proof (cases "mo_id mo = metaobjectId x")
    case True
    then have "mo = mx" using distinct_id_eq [OF d mo mx(1)] idx by simp
    with True mx(2) show ?thesis
      by (simp add: loadPrize_award awardTo_def)
  next
    case False
    then show ?thesis
      by (cases "loadPrize lib mo") (auto simp: awardTo_def dest: loadPrize_SomeD(1))
  qed
qed


lemma updatePrizeMetaobject_fields [simp]:
  "metafields (updatePrizeMetaobject i ups s) = metafields s"
  "customers (updatePrizeMetaobject i ups s) = customers s"
  "next_id (updatePrizeMetaobject i ups s) = next_id s"
  "metaobjects (updatePrizeMetaobject i ups s) =
     map (\<lambda>mo. if mo_id mo = i then setFields ups mo else mo) (metaobjects s)"
  "requests (updatePrizeMetaobject i ups s) = requests s @ [MetaobjectUpdate i ups]"
  by (simp_all add: updatePrizeMetaobject_def)

lemma updatePrizeMetaobject_wf [simp]: "wf_shop (updatePrizeMetaobject i ups s) = wf_shop s"
proof -
  have "map mo_id (map (\<lambda>mo. if mo_id mo = i then setFields ups mo else mo) (metaobjects s))
          = map mo_id (metaobjects s)"
    by (induction "metaobjects s") auto
  then show ?thesis
    by (simp add: wf_shop_def del: map_map)
qed

lemma addPrizeToCustomer_mo_frame [simp]:
  "metafields (addPrizeToCustomer_mo c l now s) = metafields s"
  "metaobjects (addPrizeToCustomer_mo c l now s) = metaobjects s"
  "next_id (addPrizeToCustomer_mo c l now s) = next_id s"
  by (simp_all add: addPrizeToCustomer_mo_def updateCustomerTags_def putCustomerNote_def Let_def)

lemma addPrizeToCustomer_mo_wf [simp]: "wf_shop (addPrizeToCustomer_mo c l now s) = wf_shop s"
  by (simp add: wf_shop_def)

lemma catalogOf_cong: "metaobjects s' = metaobjects s \<Longrightarrow> catalogOf lib s' = catalogOf lib s"
  by (simp add: catalogOf_def getCurrentPrizes_alt)

lemma fallbackPrize_in_set: "prizes \<noteq> [] \<Longrightarrow> fallbackPrize prizes \<in> set prizes"
  by (auto simp: fallbackPrize_def find_Some_iff split: option.splits)

lemma catalog_after_award:
  assumes wf: "wf_shop s" and cat: "catalogOf lib s = Inr prizes" and x: "x \<in> set prizes"
    and s': "metaobjects s' =
               map (\<lambda>mo. if mo_id mo = metaobjectId x then setFields (spinUpdates x now) mo else mo)
                 (metaobjects s)"
  shows "catalogOf lib s' = Inr (map (awardTo x) prizes)"
proof -
  note c = catalogOf_InrD [OF cat]
  have d: "distinct (map mo_id (take 50 (metaobjects s)))"
    using wf by (simp add: wf_shop_def distinct_take take_map [symmetric] del: take_map)
  have "List.map_filter (loadPrize lib) (take 50 (metaobjects s')) = map (awardTo x) prizes"
    using loaded_after_award [OF d, of x lib now] x c(1) by (simp add: s' take_map)
  then show ?thesis
    using c(2) by (intro catalogOf_InrI) simp_all
qed

lemma draw_mo_award:
  assumes cat: "catalogOf lib s = Inr prizes"
    and av: "filter isAvailable_mo prizes \<noteq> []"
  shows "draw_mo lib c u now s =
           (prizeReply
              [(''id'', JStr (prize_id (weightedSelection u (filter isAvailable_mo prizes)))),
               (''label'', JStr (label (weightedSelection u (filter isAvailable_mo prizes)))),
               (''number'', JNum (totalDistributed (weightedSelection u (filter isAvailable_mo prizes)) + 1))],
            addPrizeToCustomer_mo c (label (weightedSelection u (filter isAvailable_mo prizes))) now
              (updatePrizeMetaobject (metaobjectId (weightedSelection u (filter isAvailable_mo prizes)))
                 (spinUpdates (weightedSelection u (filter isAvailable_mo prizes)) now)
                 (sent QueryMetaobjects s)))"
  using av by (simp add: draw_mo_def catalogOf_InrD(3) [OF cat] updatePrizeAfterSpin_def Let_def)

lemma draw_mo_fallback:
  assumes cat: "catalogOf lib s = Inr prizes"
    and av: "filter isAvailable_mo prizes = []"
  shows "draw_mo lib c u now s =
           (prizeReply
              [(''label'', JStr (label (fallbackPrize prizes))),
               (''number'', JNum (totalDistributed (fallbackPrize prizes) + 1))],
            addPrizeToCustomer_mo c (label (fallbackPrize prizes)) now
              (updatePrizeMetaobject (metaobjectId (fallbackPrize prizes))
                 (spinUpdates (fallbackPrize prizes) now)
                 (sent QueryMetaobjects s)))"
  using av by (simp add: draw_mo_def catalogOf_InrD(3) [OF cat] updatePrizeAfterSpin_def Let_def)

lemma draw_mo_effect:
  assumes wf: "wf_shop s" and cat: "catalogOf lib s = Inr prizes"
  shows "wf_shop (snd (draw_mo lib c u now s))
       \<and> (filter isAvailable_mo prizes \<noteq> [] \<longrightarrow>
            catalogOf lib (snd (draw_mo lib c u now s)) =
              Inr (map (awardTo (weightedSelection u (filter isAvailable_mo prizes))) prizes))
       \<and> (filter isAvailable_mo prizes = [] \<longrightarrow>
            catalogOf lib (snd (draw_mo lib c u now s)) =
              Inr (map (awardTo (fallbackPrize prizes)) prizes))"
proof (cases "filter isAvailable_mo prizes = []")
  case True
  have "fallbackPrize prizes \<in> set prizes"
    using catalogOf_InrD(2) [OF cat] by (rule fallbackPrize_in_set)
  then have "catalogOf lib (snd (draw_mo lib c u now s)) =
      Inr (map (awardTo (fallbackPrize prizes)) prizes)"
    by (rule catalog_after_award [OF wf cat, where now = now])
      (simp add: draw_mo_fallback [OF cat True])
  then show ?thesis
    using True wf by (simp add: draw_mo_fallback [OF cat True])
next
  case False
  have "weightedSelection u (filter isAvailable_mo prizes) \<in> set (filter isAvailable_mo prizes)"
    using False by (rule weightedSelection_in_set)
  then have "weightedSelection u (filter isAvailable_mo prizes) \<in> set prizes"
    by simp
  then have "catalogOf lib (snd (draw_mo lib c u now s)) =
      Inr (map (awardTo (weightedSelection u (filter isAvailable_mo prizes))) prizes)"
    by (rule catalog_after_award [OF wf cat, where now = now])
      (simp add: draw_mo_award [OF cat False])
  then show ?thesis
    using False wf by (simp add: draw_mo_award [OF cat False])
qed

lemma spin_mo_draws:
  assumes "trim p \<noteq> []" and "notPlayed_mo s (trim p)"
  shows "\<exists>c s'. spin_mo lib (Some (JStr p)) u now s = draw_mo lib c u now s'
            \<and> metafields s' = metafields s \<and> metaobjects s' = metaobjects s
            \<and> (wf_shop s \<longrightarrow> wf_shop s')"
proof (cases "find (\<lambda>c. phone_number c = trim p) (customers s)")
  case None
  with assms(1) have "spin_mo lib (Some (JStr p)) u now s =
      draw_mo lib (fst (createCustomerWithPhone (trim p) (sent (SearchCustomers (trim p)) s))) u now
        (snd (createCustomerWithPhone (trim p) (sent (SearchCustomers (trim p)) s)))"
    by (simp add: spin_mo_def findCustomerByPhone_def case_prod_unfold)
  then show ?thesis
    using createCustomer_frame [where ph = "trim p" and s = "sent (SearchCustomers (trim p)) s"]
    by (intro exI [of _ "fst (createCustomerWithPhone (trim p) (sent (SearchCustomers (trim p)) s))"]
        exI [of _ "snd (createCustomerWithPhone (trim p) (sent (SearchCustomers (trim p)) s))"])
      simp
next
  case (Some c)
  with assms have "spin_mo lib (Some (JStr p)) u now s =
      draw_mo lib c u now (sent (SearchCustomers (trim p)) s)"
    by (simp add: spin_mo_def findCustomerByPhone_def notPlayed_mo_def)
  then show ?thesis
    by (intro exI [of _ c] exI [of _ "sent (SearchCustomers (trim p)) s"]) simp
qed

section \<open>An uncapped prize keeps the draw going\<close>

lemma member_nonempty: "x \<in> set xs \<Longrightarrow> xs \<noteq> []"
  by auto

lemma uncapped_available:
  "q \<in> set PRIZES \<Longrightarrow> map_of counts (prize_id q) = Some None
     \<Longrightarrow> q \<in> set (filter (isAvailable counts) PRIZES)"
  by (simp add: isAvailable_def)

lemma uncapped_available_mo:
  "q \<in> set prizes \<Longrightarrow> remaining q = None \<Longrightarrow> q \<in> set (filter isAvailable_mo prizes)"
  by (simp add: isAvailable_mo_def)

lemma spin_reply_draw:
  assumes "trim p \<noteq> []" and "notPlayed s (trim p)"
    and "filter (isAvailable (countsOf s)) PRIZES \<noteq> []"
  shows "fst (spin (Some (JStr p)) u now s) =
           prizeReply
             [(''id'', JStr (prize_id (weightedSelection u (filter (isAvailable (countsOf s)) PRIZES)))),
              (''label'', JStr (label (weightedSelection u (filter (isAvailable (countsOf s)) PRIZES)))),
              (''number'', JNum (distributed (distributionOf s)
                 (prize_id (weightedSelection u (filter (isAvailable (countsOf s)) PRIZES))) + 1))]"
proof -
  obtain c s' where d: "spin (Some (JStr p)) u now s = draw c u now s'"
    and m: "metafields s' = metafields s"
    using spin_draws [OF assms(1,2)] by blast
  have r: "countsOf s' = countsOf s" "distributionOf s' = distributionOf s"
    using reads_depend_on_metafields [OF m] by simp_all
  show ?thesis
    using draw_reply [OF refl, of s' c u now] assms(3) by (simp add: d r)
qed

lemma spin_mo_reply_draw:
  assumes "trim p \<noteq> []" and "notPlayed_mo s (trim p)"
    and "catalogOf lib s = Inr prizes" and "filter isAvailable_mo prizes \<noteq> []"
  shows "fst (spin_mo lib (Some (JStr p)) u now s) =
           prizeReply
             [(''id'', JStr (prize_id (weightedSelection u (filter isAvailable_mo prizes)))),
              (''label'', JStr (label (weightedSelection u (filter isAvailable_mo prizes)))),
              (''number'', JNum (totalDistributed (weightedSelection u (filter isAvailable_mo prizes)) + 1))]"
proof -
  obtain c s' where d: "spin_mo lib (Some (JStr p)) u now s = draw_mo lib c u now s'"
    and m: "metaobjects s' = metaobjects s"
    using spin_mo_draws [OF assms(1,2)] by blast
  have "catalogOf lib s' = Inr prizes"
    using catalogOf_cong [OF m] assms(3) by simp
  then show ?thesis
    using draw_mo_reply [OF _ refl assms(4)] by (simp add: d)
qed

text \<open>
  Claim C7. When the catalog read for a spin holds an uncapped prize (in
  index.js a prize of \<^verbatim>\<open>PRIZES\<close> whose stored count is null, in the metaobject
  variant a loaded entry whose remaining is null), the available subset is not
  empty, so a participant who has not played gets the reply of the draw branch,
  never the fallback of "no prizes available": status 200 with the id, the
  label and the number of the prize that the weighted selection took from the
  catalog.
\<close>

theorem uncapped_prize_always_drawn:
  assumes "trim p \<noteq> []"
  shows "(notPlayed s (trim p) \<and> (\<exists>q\<in>set PRIZES. map_of (countsOf s) (prize_id q) = Some None) \<longrightarrow>
            filter (isAvailable (countsOf s)) PRIZES \<noteq> []
            \<and> weightedSelection u (filter (isAvailable (countsOf s)) PRIZES) \<in> set PRIZES
            \<and> fst (spin (Some (JStr p)) u now s) =
                Reply 200 (JObj [(''prize'', JObj
                  [(''id'', JStr (prize_id (weightedSelection u (filter (isAvailable (countsOf s)) PRIZES)))),
                   (''label'', JStr (label (weightedSelection u (filter (isAvailable (countsOf s)) PRIZES)))),
                   (''number'', JNum (distributed (distributionOf s)
                      (prize_id (weightedSelection u (filter (isAvailable (countsOf s)) PRIZES))) + 1))])]))
       \<and> (notPlayed_mo s (trim p) \<and> catalogOf lib s = Inr prizes
            \<and> (\<exists>q\<in>set prizes. remaining q = None) \<longrightarrow>
            filter isAvailable_mo prizes \<noteq> []
            \<and> weightedSelection u (filter isAvailable_mo prizes) \<in> set prizes
            \<and> fst (spin_mo lib (Some (JStr p)) u now s) =
                Reply 200 (JObj [(''prize'', JObj
                  [(''id'', JStr (prize_id (weightedSelection u (filter isAvailable_mo prizes)))),
                   (''label'', JStr (label (weightedSelection u (filter isAvailable_mo prizes)))),
                   (''number'', JNum (totalDistributed
                      (weightedSelection u (filter isAvailable_mo prizes)) + 1))])]))"
proof (intro conjI impI)
  assume a: "notPlayed s (trim p) \<and> (\<exists>q\<in>set PRIZES. map_of (countsOf s) (prize_id q) = Some None)"
  then obtain q where "q \<in> set (filter (isAvailable (countsOf s)) PRIZES)"
    using uncapped_available by blast
  then show ne: "filter (isAvailable (countsOf s)) PRIZES \<noteq> []"
    by (rule member_nonempty)
  from weightedSelection_in_set [OF ne, of u]
  show "weightedSelection u (filter (isAvailable (countsOf s)) PRIZES) \<in> set PRIZES"
    by simp
  from spin_reply_draw [OF assms _ ne, of u now] a
  show "fst (spin (Some (JStr p)) u now s) =
          Reply 200 (JObj [(''prize'', JObj
            [(''id'', JStr (prize_id (weightedSelection u (filter (isAvailable (countsOf s)) PRIZES)))),
             (''label'', JStr (label (weightedSelection u (filter (isAvailable (countsOf s)) PRIZES)))),
             (''number'', JNum (distributed (distributionOf s)
                (prize_id (weightedSelection u (filter (isAvailable (countsOf s)) PRIZES))) + 1))])])"
    by (simp add: prizeReply_def)
next
  assume a: "notPlayed_mo s (trim p) \<and> catalogOf lib s = Inr prizes
            \<and> (\<exists>q\<in>set prizes. remaining q = None)"
  then obtain q where "q \<in> set (filter isAvailable_mo prizes)"
    using uncapped_available_mo by blast
  then show ne: "filter isAvailable_mo prizes \<noteq> []"
    by (rule member_nonempty)
  from weightedSelection_in_set [OF ne, of u]
  show "weightedSelection u (filter isAvailable_mo prizes) \<in> set prizes"
    by simp
  from spin_mo_reply_draw [OF assms _ _ ne, of s lib u now] a
  show "fst (spin_mo lib (Some (JStr p)) u now s) =
          Reply 200 (JObj [(''prize'', JObj
            [(''id'', JStr (prize_id (weightedSelection u (filter isAvailable_mo prizes)))),
             (''label'', JStr (label (weightedSelection u (filter isAvailable_mo prizes)))),
             (''number'', JNum (totalDistributed
                (weightedSelection u (filter isAvailable_mo prizes)) + 1))])])"
    by (simp add: prizeReply_def)
qed


lemma scenario_catalog: "catalogOf wholePercent scenarioShop = Inr [prizeA, prizeB]"
  by code_simp

lemma trim_plain: "trim ''999'' = ''999''"
  by code_simp

theorem uncapped_prize_always_drawn_witness:
  "fst (spin (Some (JStr ''999'')) (1/2) ''2025-01-02T03:04:05.000Z'' emptyShop) =
     Reply 200 (JObj [(''prize'', JObj
       [(''id'', JStr ''mobile_holder''), (''label'', JStr ''Mobile Holder''), (''number'', JNum 1)])])
   \<and> fst (spin_mo wholePercent (Some (JStr ''999'')) (1/5) ''2025-01-02T03:04:05.000Z'' scenarioShop) =
     Reply 200 (JObj [(''prize'', JObj
       [(''id'', JStr ''A''), (''label'', JStr ''Prize A''), (''number'', JNum 1)])])"
proof -
  have t: "trim ''999'' \<noteq> []" by (simp add: trim_plain)
  have h1: "notPlayed emptyShop (trim ''999'')
            \<and> (\<exists>q\<in>set PRIZES. map_of (countsOf emptyShop) (prize_id q) = Some None)"
    by code_simp
  have h2: "notPlayed_mo scenarioShop (trim ''999'') \<and> catalogOf wholePercent scenarioShop = Inr [prizeA, prizeB]
            \<and> (\<exists>q\<in>set [prizeA, prizeB]. remaining q = None)"
    by code_simp
  have e1: "weightedSelection (1/2) (filter (isAvailable (countsOf emptyShop)) PRIZES) = PRIZES ! 3"
    by code_simp
  have e2: "weightedSelection (1/5) (filter isAvailable_mo [prizeA, prizeB]) = prizeA"
    by code_simp
  have e3: "distributed (distributionOf emptyShop) ''mobile_holder'' = 0"
    by code_simp
  have p3: "prize_id (PRIZES ! 3) = ''mobile_holder'' \<and> label (PRIZES ! 3) = ''Mobile Holder''"
    by (simp add: PRIZES_def)
  have pa: "prize_id prizeA = ''A'' \<and> label prizeA = ''Prize A'' \<and> totalDistributed prizeA = 0"
    by (simp add: prizeA_def)
  note w = uncapped_prize_always_drawn [OF t, where s = emptyShop and u = "1/2"
      and now = "''2025-01-02T03:04:05.000Z''"]
  have a: "fst (spin (Some (JStr ''999'')) (1/2) ''2025-01-02T03:04:05.000Z'' emptyShop) =
     Reply 200 (JObj [(''prize'', JObj
       [(''id'', JStr ''mobile_holder''), (''label'', JStr ''Mobile Holder''), (''number'', JNum 1)])])"
    using w [THEN conjunct1, rule_format, OF h1, THEN conjunct2, THEN conjunct2]
    unfolding e1 by (simp add: e3 p3)
  note w' = uncapped_prize_always_drawn [OF t, where s = scenarioShop and u = "1/5"
      and now = "''2025-01-02T03:04:05.000Z''" and lib = wholePercent and prizes = "[prizeA, prizeB]"]
  have b: "fst (spin_mo wholePercent (Some (JStr ''999'')) (1/5) ''2025-01-02T03:04:05.000Z'' scenarioShop) =
     Reply 200 (JObj [(''prize'', JObj
       [(''id'', JStr ''A''), (''label'', JStr ''Prize A''), (''number'', JNum 1)])])"
    using w' [THEN conjunct2, rule_format, OF h2, THEN conjunct2, THEN conjunct2]
    unfolding e2 by (simp add: pa)
  from a b show ?thesis by blast
qed

section \<open>The distribution counter\<close>


lemma spin_effect:
  assumes "trim p \<noteq> []" and "notPlayed s (trim p)" and wf: "wf_shop s"
  shows "wf_shop (snd (spin (Some (JStr p)) u now s))
       \<and> distributionOf (snd (spin (Some (JStr p)) u now s)) =
           AList.update (awardedId u (countsOf s))
             (Some (distributed (distributionOf s) (awardedId u (countsOf s)) + 1))
             (distributionOf s)
       \<and> countsOf (snd (spin (Some (JStr p)) u now s)) =
           (if filter (isAvailable (countsOf s)) PRIZES = [] then countsOf s
            else case map_of (countsOf s) (awardedId u (countsOf s)) of
                   Some (Some n) \<Rightarrow>
                     AList.update (awardedId u (countsOf s)) (Some (max 0 (n - 1))) (countsOf s)
                 | _ \<Rightarrow> countsOf s)"
proof -
  obtain c s' where d: "spin (Some (JStr p)) u now s = draw c u now s'"
    and m: "metafields s' = metafields s" and wf': "wf_shop s'"
    using spin_draws [OF assms(1,2)] wf by blast
  have r: "countsOf s' = countsOf s" "distributionOf s' = distributionOf s"
    using reads_depend_on_metafields [OF m] by simp_all
  show ?thesis
  proof (cases "filter (isAvailable (countsOf s)) PRIZES = []")
    case True
    then show ?thesis
      using draw_fallback_effect [OF wf', where c = c and u = u and now = now, unfolded r]
      by (simp add: d awardedId_def)
  next
    case False
    then have i: "awardedId u (countsOf s) =
        prize_id (weightedSelection u (filter (isAvailable (countsOf s)) PRIZES))"
      by (simp add: awardedId_def)
    show ?thesis
      unfolding i
      using False draw_effect [OF wf', where c = c and u = u and now = now, unfolded r]
      by (simp add: d)
  qed
qed


lemma spin_mo_effect:
  assumes "trim p \<noteq> []" and "notPlayed_mo s (trim p)" and wf: "wf_shop s"
    and cat: "catalogOf lib s = Inr prizes"
  shows "wf_shop (snd (spin_mo lib (Some (JStr p)) u now s))
       \<and> catalogOf lib (snd (spin_mo lib (Some (JStr p)) u now s)) =
           Inr (map (awardTo (awarded_mo u prizes)) prizes)"
proof -
  obtain c s' where d: "spin_mo lib (Some (JStr p)) u now s = draw_mo lib c u now s'"
    and m: "metaobjects s' = metaobjects s" and wf': "wf_shop s'"
    using spin_mo_draws [OF assms(1,2)] wf by blast
  have cat': "catalogOf lib s' = Inr prizes"
    using catalogOf_cong [OF m] cat by simp
  show ?thesis
    using draw_mo_effect [OF wf' cat', where c = c and u = u and now = now]
    by (simp add: d awarded_mo_def)
qed

lemma loaded_ids:
  "map metaobjectId (List.map_filter (loadPrize lib) mos)
     = map mo_id (filter (\<lambda>mo. loadPrize lib mo \<noteq> None) mos)"
  by (induction mos) (auto simp: map_filter_Cons loadPrize_SomeD(1) split: option.splits)

lemma catalog_ids_distinct:
  assumes "wf_shop s" and "catalogOf lib s = Inr prizes"
  shows "distinct (map metaobjectId prizes)"
proof -
  have "distinct (map mo_id (take 50 (metaobjects s)))"
    using assms(1) by (simp add: wf_shop_def distinct_take take_map [symmetric] del: take_map)
  then have "distinct (map mo_id (filter (\<lambda>mo. loadPrize lib mo \<noteq> None) (take 50 (metaobjects s))))"
    by (rule distinct_map_filter)
  then show ?thesis
    using catalogOf_InrD(1) [OF assms(2)] by (simp add: loaded_ids)
qed









section \<open>The fallback\<close>














section \<open>Remaining counts\<close>

lemma phoneOf_nonempty:
  "phoneOf v = Some ph \<Longrightarrow> ph \<noteq> [] \<Longrightarrow> \<exists>p. v = Some (JStr p) \<and> trim p = ph"
  by (cases v rule: truthy.cases) (auto simp: trim_def split: if_splits)

lemma spin_cases:
  "(metafields (snd (spin phone u now s)) = metafields s
      \<and> metaobjects (snd (spin phone u now s)) = metaobjects s
      \<and> next_id (snd (spin phone u now s)) = next_id s)
   \<or> (\<exists>p. phone = Some (JStr p) \<and> trim p \<noteq> [] \<and> notPlayed s (trim p))"
proof (cases "phoneOf phone")
  case None
  then show ?thesis by (simp add: spin_def)
next
  case (Some ph)
  show ?thesis
  proof (cases "ph = []")
    case True
    with Some show ?thesis by (simp add: spin_def)
  next
    case False
    then obtain p where p: "phone = Some (JStr p)" "trim p = ph"
      using phoneOf_nonempty [OF Some] by blast
    show ?thesis
    proof (cases "notPlayed s (trim p)")
      case True
      with p False show ?thesis by blast
    next
      case False
      then obtain c where "find (\<lambda>c. phone_number c = trim p) (customers s) = Some c"
        "hasPlayedWheel c"
        by (auto simp: notPlayed_def split: option.splits)
      with p \<open>ph \<noteq> []\<close> show ?thesis
        by (simp add: spin_def findCustomerByPhone_def)
    qed
  qed
qed

lemma spin_mo_cases:
  "(metafields (snd (spin_mo lib phone u now s)) = metafields s
      \<and> metaobjects (snd (spin_mo lib phone u now s)) = metaobjects s
      \<and> next_id (snd (spin_mo lib phone u now s)) = next_id s)
   \<or> (\<exists>p. phone = Some (JStr p) \<and> trim p \<noteq> [] \<and> notPlayed_mo s (trim p))"
proof (cases "phoneOf phone")
  case None
  then show ?thesis by (simp add: spin_mo_def)
next
  case (Some ph)
  show ?thesis
  proof (cases "ph = []")
    case True
    with Some show ?thesis by (simp add: spin_mo_def)
  next
    case False
    then obtain p where p: "phone = Some (JStr p)" "trim p = ph"
      using phoneOf_nonempty [OF Some] by blast
    show ?thesis
    proof (cases "notPlayed_mo s (trim p)")
      case True
      with p False show ?thesis by blast
    next
      case False
      then obtain c where "find (\<lambda>c. phone_number c = trim p) (customers s) = Some c"
        "hasPlayedWheel_mo c"
        by (auto simp: notPlayed_mo_def split: option.splits)
      with p \<open>ph \<noteq> []\<close> show ?thesis
        by (simp add: spin_mo_def findCustomerByPhone_def)
    qed
  qed
qed

lemma wf_shop_cong:
  "metafields s' = metafields s \<Longrightarrow> metaobjects s' = metaobjects s \<Longrightarrow> next_id s' = next_id s
     \<Longrightarrow> wf_shop s' = wf_shop s"
  by (simp add: wf_shop_def)

lemma spin_wf: "wf_shop s \<Longrightarrow> wf_shop (snd (spin phone u now s))"
  using spin_cases [of phone u now s] spin_effect [of _ s u now] wf_shop_cong
  by blast

lemma zero_not_available:
  "map_of counts k = Some (Some 0) \<Longrightarrow> q \<in> set (filter (isAvailable counts) PRIZES) \<Longrightarrow> prize_id q \<noteq> k"
  by (auto simp: isAvailable_def)

lemma zero_not_selected:
  assumes "map_of counts k = Some (Some 0)" and "filter (isAvailable counts) PRIZES \<noteq> []"
  shows "prize_id (weightedSelection u (filter (isAvailable counts) PRIZES)) \<noteq> k"
  using zero_not_available [OF assms(1) weightedSelection_in_set [OF assms(2)]] .

lemma spin_counts_step:
  assumes wf: "wf_shop s"
  shows "map_of (countsOf (snd (spin phone u now s))) k = map_of (countsOf s) k
       \<or> (\<exists>n. map_of (countsOf s) k = Some (Some n)
              \<and> map_of (countsOf (snd (spin phone u now s))) k = Some (Some (max 0 (n - 1)))
              \<and> filter (isAvailable (countsOf s)) PRIZES \<noteq> []
              \<and> k = prize_id (weightedSelection u (filter (isAvailable (countsOf s)) PRIZES)))"
proof -
  from spin_cases [of phone u now s] show ?thesis
  proof
    assume "metafields (snd (spin phone u now s)) = metafields s
      \<and> metaobjects (snd (spin phone u now s)) = metaobjects s
      \<and> next_id (snd (spin phone u now s)) = next_id s"
    then show ?thesis
      using reads_depend_on_metafields [of "snd (spin phone u now s)" s] by simp
  next
    assume "\<exists>p. phone = Some (JStr p) \<and> trim p \<noteq> [] \<and> notPlayed s (trim p)"
    then obtain p where p: "phone = Some (JStr p)" "trim p \<noteq> []" "notPlayed s (trim p)"
      by blast
    note e = spin_effect [OF p(2,3) wf, of u now, THEN conjunct2, THEN conjunct2]
    show ?thesis
    proof (cases "filter (isAvailable (countsOf s)) PRIZES = []")
      case True
      with e show ?thesis by (simp add: p(1))
    next
      case False
      then have i: "awardedId u (countsOf s) =
          prize_id (weightedSelection u (filter (isAvailable (countsOf s)) PRIZES))"
        by (simp add: awardedId_def)
      show ?thesis
      proof (cases "map_of (countsOf s) (awardedId u (countsOf s))")
        case None
        with e False show ?thesis by (simp add: p(1))
      next
        case (Some v)
        show ?thesis
        proof (cases v)
          case None
          with Some e False show ?thesis by (simp add: p(1))
        next
          case (Some n)
          with \<open>map_of (countsOf s) (awardedId u (countsOf s)) = Some v\<close> e False i
          show ?thesis
            by (cases "k = awardedId u (countsOf s)") (simp_all add: p(1) update_conv')
        qed
      qed
    qed
  qed
qed

lemma spin_zero_stays:
  assumes "wf_shop s" and "map_of (countsOf s) k = Some (Some 0)"
  shows "map_of (countsOf (snd (spin phone u now s))) k = Some (Some 0)"
  using spin_counts_step [OF assms(1), of phone u now k] assms(2) by auto

lemma spins_zero_stays:
  "wf_shop s \<Longrightarrow> map_of (countsOf s) k = Some (Some 0)
     \<Longrightarrow> wf_shop (spins rs s) \<and> map_of (countsOf (spins rs s)) k = Some (Some 0)"
proof (induction rs arbitrary: s)
  case Nil
  then show ?case by simp
next
  case (Cons r rs)
  obtain phone u now where r: "r = (phone, u, now)" by (cases r)
  show ?case
    using Cons.IH [OF spin_wf [OF Cons.prems(1)] spin_zero_stays [OF Cons.prems]]
    by (simp add: r)
qed


lemma loaded_remaining_nonneg:
  assumes "catalogOf lib s = Inr prizes" and "q \<in> set prizes" and "remaining q = Some r"
  shows "0 \<le> r"
proof -
  obtain mo where "loadPrize lib mo = Some q"
    using loaded_from [of q lib "take 50 (metaobjects s)"] assms(1,2) catalogOf_InrD(1) by blast
  then have "loadedRemaining (parseCount (getFieldValue mo ''max_count''))
               (parseCount (getFieldValue mo ''remaining_count'')) = Some r"
    using loadPrize_SomeD(3) assms(3) by simp
  then show ?thesis
    using loadedRemaining_bounds by blast
qed

lemma spinUpdates_clamped:
  "remaining q = Some r \<Longrightarrow> (''remaining_count'', String (max 0 (r - 1))) \<in> set (spinUpdates q now)"
  by (simp add: spinUpdates_def Let_def)

lemma spin_mo_catalog_step:
  assumes wf: "wf_shop s" and cat: "catalogOf lib s = Inr prizes"
  shows "wf_shop (snd (spin_mo lib phone u now s))
       \<and> (catalogOf lib (snd (spin_mo lib phone u now s)) = Inr prizes
          \<or> catalogOf lib (snd (spin_mo lib phone u now s)) =
               Inr (map (awardTo (awarded_mo u prizes)) prizes))"
proof -
  from spin_mo_cases [of lib phone u now s] show ?thesis
  proof
    assume a: "metafields (snd (spin_mo lib phone u now s)) = metafields s
      \<and> metaobjects (snd (spin_mo lib phone u now s)) = metaobjects s
      \<and> next_id (snd (spin_mo lib phone u now s)) = next_id s"
    then show ?thesis
      using wf cat catalogOf_cong [of "snd (spin_mo lib phone u now s)" s lib]
        wf_shop_cong [of "snd (spin_mo lib phone u now s)" s]
      by simp
  next
    assume "\<exists>p. phone = Some (JStr p) \<and> trim p \<noteq> [] \<and> notPlayed_mo s (trim p)"
    then obtain p where p: "phone = Some (JStr p)" "trim p \<noteq> []" "notPlayed_mo s (trim p)"
      by blast
    show ?thesis
      using spin_mo_effect [OF p(2,3) wf cat, of u now] by (simp add: p(1))
  qed
qed

lemma awardTo_keeps_zero:
  "remaining q = Some 0 \<Longrightarrow>
     metaobjectId (awardTo x q) = metaobjectId q \<and> remaining (awardTo x q) = Some 0"
  by (simp add: awardTo_def applyAward_def)

lemma spin_mo_zero_stays:
  assumes wf: "wf_shop s" and cat: "catalogOf lib s = Inr prizes"
    and q: "q \<in> set prizes" "metaobjectId q = m" "remaining q = Some 0"
  shows "wf_shop (snd (spin_mo lib phone u now s))
       \<and> (\<exists>prizes'. catalogOf lib (snd (spin_mo lib phone u now s)) = Inr prizes'
            \<and> (\<exists>q'\<in>set prizes'. metaobjectId q' = m \<and> remaining q' = Some 0))"
proof -
  note st = spin_mo_catalog_step [OF wf cat, of phone u now]
  from st [THEN conjunct2] show ?thesis
  proof
    assume "catalogOf lib (snd (spin_mo lib phone u now s)) = Inr prizes"
    with q st show ?thesis by blast
  next
    assume a: "catalogOf lib (snd (spin_mo lib phone u now s)) =
      Inr (map (awardTo (awarded_mo u prizes)) prizes)"
    have "awardTo (awarded_mo u prizes) q \<in> set (map (awardTo (awarded_mo u prizes)) prizes)"
      using q(1) by simp
    with a q awardTo_keeps_zero [OF q(3), of "awarded_mo u prizes"] st show ?thesis
      by blast
  qed
qed

lemma spins_mo_zero_stays:
  "wf_shop s \<Longrightarrow> catalogOf lib s = Inr prizes \<Longrightarrow> q \<in> set prizes \<Longrightarrow> metaobjectId q = m
     \<Longrightarrow> remaining q = Some 0
     \<Longrightarrow> \<exists>prizes'. catalogOf lib (spins_mo lib rs s) = Inr prizes'
            \<and> (\<exists>q'\<in>set prizes'. metaobjectId q' = m \<and> remaining q' = Some 0)"
proof (induction rs arbitrary: s prizes q)
  case Nil
  then show ?case by auto
next
  case (Cons r rs)
  obtain phone u now where r: "r = (phone, u, now)" by (cases r)
  obtain prizes' q' where n: "wf_shop (snd (spin_mo lib phone u now s))"
    "catalogOf lib (snd (spin_mo lib phone u now s)) = Inr prizes'"
    "q' \<in> set prizes'" "metaobjectId q' = m" "remaining q' = Some 0"
    using spin_mo_zero_stays [OF Cons.prems, of phone u now] by blast
  show ?case
    using Cons.IH [OF n] by (simp add: r)
qed

lemma zero_not_available_mo:
  "remaining q = Some 0 \<Longrightarrow> q \<notin> set (filter isAvailable_mo prizes)"
  by (simp add: isAvailable_mo_def)

lemma zero_not_selected_mo:
  assumes wf: "wf_shop s" and cat: "catalogOf lib s = Inr prizes"
    and q: "q \<in> set prizes" "remaining q = Some 0"
    and av: "filter isAvailable_mo prizes \<noteq> []"
  shows "metaobjectId (weightedSelection u (filter isAvailable_mo prizes)) \<noteq> metaobjectId q"
proof
  let ?x = "weightedSelection u (filter isAvailable_mo prizes)"
  assume e: "metaobjectId ?x = metaobjectId q"
  have x: "?x \<in> set (filter isAvailable_mo prizes)"
    using av by (rule weightedSelection_in_set)
  then have "?x \<in> set prizes" by simp
  moreover have "inj_on metaobjectId (set prizes)"
    using catalog_ids_distinct [OF wf cat] by (simp add: distinct_map)
  ultimately have "?x = q"
    using q(1) e by (auto dest: inj_onD)
  with x zero_not_available_mo [OF q(2), of prizes] show False by simp
qed


text \<open>
  Claim C3. A spin leaves the remaining count of a prize as it is or, for the
  prize it awards, writes \<open>max 0 (n - 1)\<close> for the count \<open>n\<close> it read, so a
  count never becomes negative; in the metaobject variant the counts read are
  never negative either. A prize whose remaining count is 0 is not in the
  available subset and is not what the weighted selection returns, and its
  count is still 0 after any run of spins (when the fallback of the
  metaobject variant awards it, the clamp keeps it at 0), so it stays excluded
  in every later spin until the counts are reset.
\<close>

theorem remaining_clamped_and_zero_excluded:
  assumes "wf_shop s"
  shows "(map_of (countsOf (snd (spin phone u now s))) k = map_of (countsOf s) k
          \<or> (\<exists>n. map_of (countsOf s) k = Some (Some n)
                \<and> map_of (countsOf (snd (spin phone u now s))) k = Some (Some (max 0 (n - 1)))))
       \<and> (map_of (countsOf s) k = Some (Some 0) \<longrightarrow>
            (\<forall>q\<in>set (filter (isAvailable (countsOf s)) PRIZES). prize_id q \<noteq> k)
            \<and> (filter (isAvailable (countsOf s)) PRIZES \<noteq> [] \<longrightarrow>
                  prize_id (weightedSelection u (filter (isAvailable (countsOf s)) PRIZES)) \<noteq> k)
            \<and> map_of (countsOf (spins rs s)) k = Some (Some 0)
            \<and> (\<forall>q\<in>set (filter (isAvailable (countsOf (spins rs s))) PRIZES). prize_id q \<noteq> k))
       \<and> (catalogOf lib s = Inr prizes \<longrightarrow>
            (\<forall>q\<in>set prizes. \<forall>r. remaining q = Some r \<longrightarrow>
               0 \<le> r \<and> (''remaining_count'', String (max 0 (r - 1))) \<in> set (spinUpdates q now))
            \<and> (catalogOf lib (snd (spin_mo lib phone u now s)) = Inr prizes
                \<or> catalogOf lib (snd (spin_mo lib phone u now s)) =
                     Inr (map (awardTo (awarded_mo u prizes)) prizes))
            \<and> (\<forall>q\<in>set prizes. remaining q = Some 0 \<longrightarrow>
                  q \<notin> set (filter isAvailable_mo prizes)
                  \<and> (filter isAvailable_mo prizes \<noteq> [] \<longrightarrow>
                        metaobjectId (weightedSelection u (filter isAvailable_mo prizes))
                          \<noteq> metaobjectId q)
                  \<and> remaining (awardTo (awarded_mo u prizes) q) = Some 0
                  \<and> (\<exists>prizes'. catalogOf lib (spins_mo lib rs s) = Inr prizes'
                        \<and> (\<exists>q'\<in>set prizes'. metaobjectId q' = metaobjectId q
                              \<and> remaining q' = Some 0
                              \<and> q' \<notin> set (filter isAvailable_mo prizes')))))"
proof (intro conjI)
  show "map_of (countsOf (snd (spin phone u now s))) k = map_of (countsOf s) k
          \<or> (\<exists>n. map_of (countsOf s) k = Some (Some n)
                \<and> map_of (countsOf (snd (spin phone u now s))) k = Some (Some (max 0 (n - 1))))"
    using spin_counts_step [OF assms, of phone u now k] by blast
  show "map_of (countsOf s) k = Some (Some 0) \<longrightarrow>
            (\<forall>q\<in>set (filter (isAvailable (countsOf s)) PRIZES). prize_id q \<noteq> k)
            \<and> (filter (isAvailable (countsOf s)) PRIZES \<noteq> [] \<longrightarrow>
                  prize_id (weightedSelection u (filter (isAvailable (countsOf s)) PRIZES)) \<noteq> k)
            \<and> map_of (countsOf (spins rs s)) k = Some (Some 0)
            \<and> (\<forall>q\<in>set (filter (isAvailable (countsOf (spins rs s))) PRIZES). prize_id q \<noteq> k)"
  proof
    assume z: "map_of (countsOf s) k = Some (Some 0)"
    note later = spins_zero_stays [OF assms z, of rs, THEN conjunct2]
    show "(\<forall>q\<in>set (filter (isAvailable (countsOf s)) PRIZES). prize_id q \<noteq> k)
            \<and> (filter (isAvailable (countsOf s)) PRIZES \<noteq> [] \<longrightarrow>
                  prize_id (weightedSelection u (filter (isAvailable (countsOf s)) PRIZES)) \<noteq> k)
            \<and> map_of (countsOf (spins rs s)) k = Some (Some 0)
            \<and> (\<forall>q\<in>set (filter (isAvailable (countsOf (spins rs s))) PRIZES). prize_id q \<noteq> k)"
      using zero_not_available [OF z] zero_not_selected [OF z, of u] later
        zero_not_available [OF later]
      by blast
  qed
  show "catalogOf lib s = Inr prizes \<longrightarrow>
            (\<forall>q\<in>set prizes. \<forall>r. remaining q = Some r \<longrightarrow>
               0 \<le> r \<and> (''remaining_count'', String (max 0 (r - 1))) \<in> set (spinUpdates q now))
            \<and> (catalogOf lib (snd (spin_mo lib phone u now s)) = Inr prizes
                \<or> catalogOf lib (snd (spin_mo lib phone u now s)) =
                     Inr (map (awardTo (awarded_mo u prizes)) prizes))
            \<and> (\<forall>q\<in>set prizes. remaining q = Some 0 \<longrightarrow>
                  q \<notin> set (filter isAvailable_mo prizes)
                  \<and> (filter isAvailable_mo prizes \<noteq> [] \<longrightarrow>
                        metaobjectId (weightedSelection u (filter isAvailable_mo prizes))
                          \<noteq> metaobjectId q)
                  \<and> remaining (awardTo (awarded_mo u prizes) q) = Some 0
                  \<and> (\<exists>prizes'. catalogOf lib (spins_mo lib rs s) = Inr prizes'
                        \<and> (\<exists>q'\<in>set prizes'. metaobjectId q' = metaobjectId q
                              \<and> remaining q' = Some 0
                              \<and> q' \<notin> set (filter isAvailable_mo prizes'))))"
  proof
    assume cat: "catalogOf lib s = Inr prizes"
    have a: "\<forall>q\<in>set prizes. \<forall>r. remaining q = Some r \<longrightarrow>
               0 \<le> r \<and> (''remaining_count'', String (max 0 (r - 1))) \<in> set (spinUpdates q now)"
      using loaded_remaining_nonneg [OF cat] spinUpdates_clamped by blast
    have b: "catalogOf lib (snd (spin_mo lib phone u now s)) = Inr prizes
                \<or> catalogOf lib (snd (spin_mo lib phone u now s)) =
                     Inr (map (awardTo (awarded_mo u prizes)) prizes)"
      using spin_mo_catalog_step [OF assms cat] by blast
    have c: "\<forall>q\<in>set prizes. remaining q = Some 0 \<longrightarrow>
                  q \<notin> set (filter isAvailable_mo prizes)
                  \<and> (filter isAvailable_mo prizes \<noteq> [] \<longrightarrow>
                        metaobjectId (weightedSelection u (filter isAvailable_mo prizes))
                          \<noteq> metaobjectId q)
                  \<and> remaining (awardTo (awarded_mo u prizes) q) = Some 0
                  \<and> (\<exists>prizes'. catalogOf lib (spins_mo lib rs s) = Inr prizes'
                        \<and> (\<exists>q'\<in>set prizes'. metaobjectId q' = metaobjectId q
                              \<and> remaining q' = Some 0
                              \<and> q' \<notin> set (filter isAvailable_mo prizes')))"
    proof (intro ballI impI)
      fix q assume q: "q \<in> set prizes" "remaining q = Some 0"
      obtain prizes' q' where l: "catalogOf lib (spins_mo lib rs s) = Inr prizes'"
        "q' \<in> set prizes'" "metaobjectId q' = metaobjectId q" "remaining q' = Some 0"
        using spins_mo_zero_stays [OF assms cat q(1) refl q(2), of rs] by blast
      have "q' \<notin> set (filter isAvailable_mo prizes')"
        using zero_not_available_mo [OF l(4)] .
      with l have later: "\<exists>prizes'. catalogOf lib (spins_mo lib rs s) = Inr prizes'
                        \<and> (\<exists>q'\<in>set prizes'. metaobjectId q' = metaobjectId q
                              \<and> remaining q' = Some 0
                              \<and> q' \<notin> set (filter isAvailable_mo prizes'))"
        by blast
      show "q \<notin> set (filter isAvailable_mo prizes)
                  \<and> (filter isAvailable_mo prizes \<noteq> [] \<longrightarrow>
                        metaobjectId (weightedSelection u (filter isAvailable_mo prizes))
                          \<noteq> metaobjectId q)
                  \<and> remaining (awardTo (awarded_mo u prizes) q) = Some 0
                  \<and> (\<exists>prizes'. catalogOf lib (spins_mo lib rs s) = Inr prizes'
                        \<and> (\<exists>q'\<in>set prizes'. metaobjectId q' = metaobjectId q
                              \<and> remaining q' = Some 0
                              \<and> q' \<notin> set (filter isAvailable_mo prizes')))"
        using zero_not_available_mo [OF q(2), of prizes]
          zero_not_selected_mo [OF assms cat q, of u]
          awardTo_keeps_zero [OF q(2), of "awarded_mo u prizes"] later
        by blast
    qed
    from a b c show "(\<forall>q\<in>set prizes. \<forall>r. remaining q = Some r \<longrightarrow>
               0 \<le> r \<and> (''remaining_count'', String (max 0 (r - 1))) \<in> set (spinUpdates q now))
            \<and> (catalogOf lib (snd (spin_mo lib phone u now s)) = Inr prizes
                \<or> catalogOf lib (snd (spin_mo lib phone u now s)) =
                     Inr (map (awardTo (awarded_mo u prizes)) prizes))
            \<and> (\<forall>q\<in>set prizes. remaining q = Some 0 \<longrightarrow>
                  q \<notin> set (filter isAvailable_mo prizes)
                  \<and> (filter isAvailable_mo prizes \<noteq> [] \<longrightarrow>
                        metaobjectId (weightedSelection u (filter isAvailable_mo prizes))
                          \<noteq> metaobjectId q)
                  \<and> remaining (awardTo (awarded_mo u prizes) q) = Some 0
                  \<and> (\<exists>prizes'. catalogOf lib (spins_mo lib rs s) = Inr prizes'
                        \<and> (\<exists>q'\<in>set prizes'. metaobjectId q' = metaobjectId q
                              \<and> remaining q' = Some 0
                              \<and> q' \<notin> set (filter isAvailable_mo prizes'))))"
      by blast
  qed
qed


lemma kivo_facts:
  "wf_shop kivoGoneShop
   \<and> map_of (countsOf emptyShop) ''kivo_easy_lite'' = Some (Some 1)
   \<and> map_of (countsOf kivoGoneShop) ''kivo_easy_lite'' = Some (Some 0)
   \<and> filter (isAvailable (countsOf kivoGoneShop)) PRIZES \<noteq> []"
  by code_simp

lemma played_mo_facts:
  "wf_shop playedShop_mo
   \<and> catalogOf wholePercent playedShop_mo
       = Inr [prizeA\<lparr>remaining := Some 0, totalDistributed := 1\<rparr>, prizeB]
   \<and> filter isAvailable_mo [prizeA\<lparr>remaining := Some 0, totalDistributed := 1\<rparr>, prizeB] = [prizeB]"
  by code_simp

theorem remaining_clamped_and_zero_excluded_witness:
  "map_of (countsOf emptyShop) ''kivo_easy_lite'' = Some (Some 1)
   \<and> map_of (countsOf kivoGoneShop) ''kivo_easy_lite'' = Some (Some 0)
   \<and> prize_id (weightedSelection 0 (filter (isAvailable (countsOf kivoGoneShop)) PRIZES))
       \<noteq> ''kivo_easy_lite''
   \<and> map_of (countsOf (spins laterSpins kivoGoneShop)) ''kivo_easy_lite'' = Some (Some 0)
   \<and> catalogOf wholePercent playedShop_mo
       = Inr [prizeA\<lparr>remaining := Some 0, totalDistributed := 1\<rparr>, prizeB]
   \<and> metaobjectId
        (weightedSelection 0 (filter isAvailable_mo [prizeA\<lparr>remaining := Some 0, totalDistributed := 1\<rparr>, prizeB]))
       \<noteq> ''gid://shopify/Metaobject/1''
   \<and> (\<exists>prizes'. catalogOf wholePercent (spins_mo wholePercent laterSpins playedShop_mo) = Inr prizes'
         \<and> (\<exists>q'\<in>set prizes'. metaobjectId q' = ''gid://shopify/Metaobject/1''
               \<and> remaining q' = Some 0
               \<and> q' \<notin> set (filter isAvailable_mo prizes')))"
proof -
  note k = kivo_facts
  note m = played_mo_facts
  let ?A = "prizeA\<lparr>remaining := Some 0, totalDistributed := 1\<rparr>"
  have z: "map_of (countsOf kivoGoneShop) ''kivo_easy_lite'' = Some (Some 0)"
    using k by simp
  have ne: "filter (isAvailable (countsOf kivoGoneShop)) PRIZES \<noteq> []"
    using k by simp
  have cat: "catalogOf wholePercent playedShop_mo = Inr [?A, prizeB]"
    using m by simp
  have a: "?A \<in> set [?A, prizeB]" "remaining ?A = Some 0"
    "metaobjectId ?A = ''gid://shopify/Metaobject/1''"
    by (simp_all add: prizeA_def)
  have ne': "filter isAvailable_mo [?A, prizeB] \<noteq> []"
    using m by simp
  note w = remaining_clamped_and_zero_excluded [OF k [THEN conjunct1],
      where k = "''kivo_easy_lite''" and u = 0 and rs = laterSpins,
      THEN conjunct2, THEN conjunct1, rule_format, OF z]
  note w' = remaining_clamped_and_zero_excluded [OF m [THEN conjunct1],
      where u = 0 and rs = laterSpins and lib = wholePercent and prizes = "[?A, prizeB]",
      THEN conjunct2, THEN conjunct2, rule_format, OF cat,
      THEN conjunct2, THEN conjunct2, rule_format, OF a(1) a(2), unfolded a(3)]
  have b: "prize_id (weightedSelection 0 (filter (isAvailable (countsOf kivoGoneShop)) PRIZES))
       \<noteq> ''kivo_easy_lite''"
    using w ne by blast
  have c: "map_of (countsOf (spins laterSpins kivoGoneShop)) ''kivo_easy_lite'' = Some (Some 0)"
    using w by blast
  have d: "metaobjectId (weightedSelection 0 (filter isAvailable_mo [?A, prizeB]))
       \<noteq> ''gid://shopify/Metaobject/1''"
    using w' ne' by blast
  have e: "\<exists>prizes'. catalogOf wholePercent (spins_mo wholePercent laterSpins playedShop_mo) = Inr prizes'
         \<and> (\<exists>q'\<in>set prizes'. metaobjectId q' = ''gid://shopify/Metaobject/1''
               \<and> remaining q' = Some 0
               \<and> q' \<notin> set (filter isAvailable_mo prizes'))"
    using w' by blast
  from k z b c cat d e show ?thesis by blast
qed

section \<open>The reset\<close>

lemma reset_counts_lookup:
  "q \<in> set PRIZES \<Longrightarrow> map_of (forEachPrize max_count) (prize_id q) = Some (max_count q)"
  by (auto simp: forEachPrize_def PRIZES_def)

lemma map_update_same:
  assumes "distinct (map mf_id ms)" and "find P ms = Some mf" and "mf_value mf = v"
  shows "map (\<lambda>m. if mf_id m = mf_id mf then m\<lparr>mf_value := v\<rparr> else m) ms = ms"
proof -
  have mem: "mf \<in> set ms" using assms(2) by (auto simp: find_Some_iff)
  have inj: "inj_on mf_id (set ms)" using assms(1) by (simp add: distinct_map)
  have "\<And>m. m \<in> set ms \<Longrightarrow> (if mf_id m = mf_id mf then m\<lparr>mf_value := v\<rparr> else m) = m"
  proof -
    fix m assume "m \<in> set ms"
    then have "mf_id m = mf_id mf \<Longrightarrow> m = mf" using inj mem by (auto dest: inj_onD)
    then show "(if mf_id m = mf_id mf then m\<lparr>mf_value := v\<rparr> else m) = m"
      using assms(3) by auto
  qed
  then show ?thesis by (simp add: map_idI)
qed

lemma reset_prizes_effect:
  assumes wf: "wf_shop s" and ok: "\<not> keyMismatch adminKey env"
  shows "wf_shop (snd (reset_prizes env adminKey s))
       \<and> countsOf (snd (reset_prizes env adminKey s)) = forEachPrize max_count
       \<and> distributionOf (snd (reset_prizes env adminKey s)) = distributionOf s
       \<and> counts_mf (snd (reset_prizes env adminKey s)) \<noteq> None
       \<and> customers (snd (reset_prizes env adminKey s)) = customers s
       \<and> metaobjects (snd (reset_prizes env adminKey s)) = metaobjects s"
proof -
  define s1 where "s1 = snd (ensureShopPrizeCounts s)"
  define cmf where "cmf = fst (ensureShopPrizeCounts s)"
  have p1: "wf_shop s1" "counts_mf s1 = Some cmf" "distribution_mf s1 = distribution_mf s"
    "customers s1 = customers s" "metaobjects s1 = metaobjects s"
    using ensureShopPrizeCounts_props [OF wf] by (simp_all add: s1_def cmf_def)
  have r: "snd (reset_prizes env adminKey s) = putMetafield (mf_id cmf) (forEachPrize max_count) s1"
    using ok
    by (simp add: reset_prizes_def case_prod_unfold Let_def setShopPrizeCounts_def s1_def cmf_def)
  have ids: "\<And>b. distribution_mf s1 = Some b \<Longrightarrow> mf_id cmf \<noteq> mf_id b"
    using wf_ids_differ [OF p1(1,2)] by blast
  show ?thesis
    using p1 ids
    by (auto simp: r putMetafield_props countsOf_alt distributionOf_alt split: option.splits)
qed

lemma reset_prizes_fixed:
  assumes ok: "\<not> keyMismatch adminKey env"
    and c: "counts_mf t = Some cmf" and v: "mf_value cmf = forEachPrize max_count"
    and d: "distinct (map mf_id (metafields t))"
  shows "metafields (snd (reset_prizes env adminKey t)) = metafields t
       \<and> next_id (snd (reset_prizes env adminKey t)) = next_id t"
proof -
  have en: "ensureShopPrizeCounts t = (cmf, sent (GetMetafields SHOP_METAFIELD_KEY) t)"
    using c by (rule ensureShopPrizeCounts_found)
  have "map (\<lambda>m. if mf_id m = mf_id cmf then m\<lparr>mf_value := forEachPrize max_count\<rparr> else m)
          (metafields t) = metafields t"
    using map_update_same [OF d c [unfolded counts_mf_def] v] .
  then show ?thesis
    using ok
    by (simp add: reset_prizes_def en Let_def setShopPrizeCounts_def putMetafield_def)
qed

lemma reset_prizes_twice:
  assumes wf: "wf_shop s" and ok: "\<not> keyMismatch adminKey env"
  shows "metafields (snd (reset_prizes env adminKey (snd (reset_prizes env adminKey s))))
           = metafields (snd (reset_prizes env adminKey s))
       \<and> next_id (snd (reset_prizes env adminKey (snd (reset_prizes env adminKey s))))
           = next_id (snd (reset_prizes env adminKey s))"
proof -
  note e = reset_prizes_effect [OF wf ok]
  then obtain cmf where c: "counts_mf (snd (reset_prizes env adminKey s)) = Some cmf" by auto
  then have v: "mf_value cmf = forEachPrize max_count"
    using e by (simp add: countsOf_alt)
  have d: "distinct (map mf_id (metafields (snd (reset_prizes env adminKey s))))"
    using e by (simp add: wf_shop_def)
  show ?thesis
    by (rule reset_prizes_fixed [OF ok c v d])
qed

lemma stats_reply:
  assumes "\<not> keyMismatch adminKey env"
  shows "fst (stats env adminKey s) =
           Reply 200 (JObj [(''stats'', JArr (map (statsEntry (countsOf s) (distributionOf s)) PRIZES))])"
  using assms distribution_after_counts [of s]
  by (simp add: stats_def case_prod_unfold countsOf_def)


lemma fold_resetPrize_fields:
  "metafields (fold (resetPrize now) ps s) = metafields s
   \<and> customers (fold (resetPrize now) ps s) = customers s
   \<and> next_id (fold (resetPrize now) ps s) = next_id s
   \<and> wf_shop (fold (resetPrize now) ps s) = wf_shop s"
  by (induction ps arbitrary: s) (simp_all add: resetPrize_def)

lemma fold_resetPrize_metaobjects:
  "metaobjects (fold (resetPrize now) ps s) =
     map (\<lambda>mo. fold (\<lambda>p mo. if mo_id mo = metaobjectId p
                              then setFields (resetUpdates now p) mo else mo) ps mo)
       (metaobjects s)"
  by (induction ps arbitrary: s) (simp_all add: resetPrize_def o_def)

lemma touch_once:
  "distinct (map metaobjectId ps) \<Longrightarrow>
     fold (\<lambda>p mo. if mo_id mo = metaobjectId p then setFields (resetUpdates now p) mo else mo) ps mo
       = (case find (\<lambda>p. metaobjectId p = mo_id mo) ps of
            None \<Rightarrow> mo
          | Some p \<Rightarrow> setFields (resetUpdates now p) mo)"
proof (induction ps arbitrary: mo)
  case Nil
  then show ?case by simp
next
  case (Cons p ps)
  show ?case
  proof (cases "metaobjectId p = mo_id mo")
    case True
    have "mo_id mo \<notin> metaobjectId ` set ps"
      using Cons.prems True by simp
    then have "\<And>q. q \<in> set ps \<Longrightarrow> metaobjectId q \<noteq> mo_id mo"
      by (metis imageI)
    then have "find (\<lambda>q. metaobjectId q = mo_id mo) ps = None"
      by (simp add: find_None_iff)
    then show ?thesis
      using Cons.IH [of "setFields (resetUpdates now p) mo"] Cons.prems True by simp
  next
    case False
    then show ?thesis
      using Cons.IH [of mo] Cons.prems by auto
  qed
qed

lemma find_loaded:
  "distinct (map mo_id mos) \<Longrightarrow> mo \<in> set mos \<Longrightarrow>
     find (\<lambda>p. metaobjectId p = mo_id mo) (List.map_filter (loadPrize lib) mos) = loadPrize lib mo"
proof (induction mos)
  case Nil
  then show ?case by simp
next
  case (Cons a mos)
  show ?case
  proof (cases "mo = a")
    case True
    show ?thesis
    proof (cases "loadPrize lib a")
      case None
      have "\<And>p. p \<in> set (List.map_filter (loadPrize lib) mos) \<Longrightarrow> metaobjectId p \<noteq> mo_id a"
      proof -
        fix p assume "p \<in> set (List.map_filter (loadPrize lib) mos)"
        then obtain m where "m \<in> set mos" "loadPrize lib m = Some p"
          using loaded_from by blast
        moreover have "mo_id a \<notin> mo_id ` set mos"
          using Cons.prems(1) by simp
        ultimately show "metaobjectId p \<noteq> mo_id a"
          using loadPrize_SomeD(1) [of lib m p] by (metis imageI)
      qed
      then have "find (\<lambda>p. metaobjectId p = mo_id a) (List.map_filter (loadPrize lib) mos) = None"
        by (auto simp: find_None_iff)
      with None True show ?thesis by (simp add: map_filter_Cons)
    next
      case (Some x)
      with True show ?thesis
        by (simp add: map_filter_Cons loadPrize_SomeD(1) [OF Some])
    qed
  next
    case False
    then have mo: "mo \<in> set mos" using Cons.prems(2) by simp
    have d: "distinct (map mo_id mos)" using Cons.prems(1) by simp
    have ne: "mo_id a \<noteq> mo_id mo" using Cons.prems(1) mo by auto
    show ?thesis
    proof (cases "loadPrize lib a")
      case None
      then show ?thesis using Cons.IH [OF d mo] by (simp add: map_filter_Cons)
    next
      case (Some x)
      then show ?thesis
        using Cons.IH [OF d mo] ne loadPrize_SomeD(1) [OF Some] by (simp add: map_filter_Cons)
    qed
  qed
qed

lemma loaded_after_reset:
  assumes d: "distinct (map mo_id mos)"
  shows "List.map_filter (loadPrize lib)
           (map (\<lambda>mo. fold (\<lambda>p mo. if mo_id mo = metaobjectId p
                                    then setFields (resetUpdates now p) mo else mo)
                         (List.map_filter (loadPrize lib) mos) mo) mos)
         = map resetToMax (List.map_filter (loadPrize lib) mos)"
proof (rule map_filter_map_option)
  fix mo assume mo: "mo \<in> set mos"
  have dp: "distinct (map metaobjectId (List.map_filter (loadPrize lib) mos))"
    using d by (simp add: loaded_ids distinct_map_filter)
  show "loadPrize lib
          (fold (\<lambda>p mo. if mo_id mo = metaobjectId p then setFields (resetUpdates now p) mo else mo)
             (List.map_filter (loadPrize lib) mos) mo)
        = map_option resetToMax (loadPrize lib mo)"
    by (cases "loadPrize lib mo")
      (simp_all add: touch_once [OF dp] find_loaded [OF d mo] loadPrize_reset)
qed


lemma reset_prizes_mo_effect:
  assumes wf: "wf_shop s" and ok: "\<not> keyMismatch adminKey env"
    and cat: "catalogOf lib s = Inr prizes"
  shows "wf_shop (snd (reset_prizes_mo lib env adminKey now s))
       \<and> catalogOf lib (snd (reset_prizes_mo lib env adminKey now s)) = Inr (map resetToMax prizes)
       \<and> metafields (snd (reset_prizes_mo lib env adminKey now s)) = metafields s
       \<and> customers (snd (reset_prizes_mo lib env adminKey now s)) = customers s"
proof -
  note c = catalogOf_InrD [OF cat]
  have r: "snd (reset_prizes_mo lib env adminKey now s)
             = fold (resetPrize now) prizes (sent QueryMetaobjects s)"
    using ok by (simp add: reset_prizes_mo_def c(3))
  have d: "distinct (map mo_id (take 50 (metaobjects s)))"
    using wf by (simp add: wf_shop_def distinct_take take_map [symmetric] del: take_map)
  have "List.map_filter (loadPrize lib)
          (take 50 (metaobjects (fold (resetPrize now) prizes (sent QueryMetaobjects s))))
        = map resetToMax prizes"
    using loaded_after_reset [OF d, of lib now] c(1)
    by (simp add: fold_resetPrize_metaobjects take_map)
  then have "catalogOf lib (fold (resetPrize now) prizes (sent QueryMetaobjects s))
               = Inr (map resetToMax prizes)"
    using c(2) by (intro catalogOf_InrI) simp_all
  then show ?thesis
    using wf fold_resetPrize_fields [of now prizes "sent QueryMetaobjects s"] by (simp add: r)
qed

lemma stats_mo_reply:
  assumes "\<not> keyMismatch adminKey env"
  shows "fst (stats_mo lib env adminKey s) =
           (case catalogOf lib s of
              Inl msg \<Rightarrow> Reply 500 (JObj [(''error'', JStr ''server error'')])
            | Inr prizes \<Rightarrow> Reply 200 (JObj [(''stats'', JArr (map (statsEntry_mo lib) prizes))]))"
  using assms
  by (cases "getCurrentPrizes lib s") (auto simp: stats_mo_def catalogOf_def split: sum.splits)

lemma resetToMax_idem: "map resetToMax (map resetToMax prizes) = map resetToMax prizes"
  by (simp add: resetToMax_def)

text \<open>
  Claim C6. An authorised reset sets the remaining count of every prize of the
  catalog back to its cap, and to null for an uncapped prize (the metaobject
  variant writes the sentinel \<^verbatim>\<open>-1\<close>, which is read back as null), and leaves
  every distribution counter as it was: index.js does not write the
  distribution metafield, the metaobject variant does not write
  \<^verbatim>\<open>total_distributed\<close>. A second reset changes nothing more: the metafields
  of index.js, the catalog of the metaobject variant and the statistics of
  both are the same after two resets as after one.
\<close>

theorem reset_restores_caps_idempotently:
  assumes "wf_shop s" and "\<not> keyMismatch adminKey env"
  shows "(\<forall>q\<in>set PRIZES.
            map_of (countsOf (snd (reset_prizes env adminKey s))) (prize_id q) = Some (max_count q))
       \<and> distributionOf (snd (reset_prizes env adminKey s)) = distributionOf s
       \<and> metafields (snd (reset_prizes env adminKey (snd (reset_prizes env adminKey s))))
           = metafields (snd (reset_prizes env adminKey s))
       \<and> fst (stats env adminKey (snd (reset_prizes env adminKey (snd (reset_prizes env adminKey s)))))
           = fst (stats env adminKey (snd (reset_prizes env adminKey s)))
       \<and> (catalogOf lib s = Inr prizes \<longrightarrow>
            catalogOf lib (snd (reset_prizes_mo lib env adminKey now s)) = Inr (map resetToMax prizes)
            \<and> (\<forall>q\<in>set prizes.
                  remaining (resetToMax q) = max_count q
                  \<and> totalDistributed (resetToMax q) = totalDistributed q
                  \<and> (''remaining_count'', String (case max_count q of None \<Rightarrow> - 1 | Some m \<Rightarrow> m))
                       \<in> set (resetUpdates now q)
                  \<and> ''total_distributed'' \<notin> set (map fst (resetUpdates now q)))
            \<and> catalogOf lib (snd (reset_prizes_mo lib env adminKey now'
                                     (snd (reset_prizes_mo lib env adminKey now s))))
                = catalogOf lib (snd (reset_prizes_mo lib env adminKey now s))
            \<and> fst (stats_mo lib env adminKey
                      (snd (reset_prizes_mo lib env adminKey now'
                              (snd (reset_prizes_mo lib env adminKey now s)))))
                = fst (stats_mo lib env adminKey (snd (reset_prizes_mo lib env adminKey now s))))"
proof (intro conjI)
  note e = reset_prizes_effect [OF assms]
  note t = reset_prizes_twice [OF assms]
  show "\<forall>q\<in>set PRIZES.
          map_of (countsOf (snd (reset_prizes env adminKey s))) (prize_id q) = Some (max_count q)"
    using e reset_counts_lookup by simp
  show "distributionOf (snd (reset_prizes env adminKey s)) = distributionOf s"
    using e by simp
  show "metafields (snd (reset_prizes env adminKey (snd (reset_prizes env adminKey s))))
          = metafields (snd (reset_prizes env adminKey s))"
    using t by simp
  show "fst (stats env adminKey (snd (reset_prizes env adminKey (snd (reset_prizes env adminKey s)))))
          = fst (stats env adminKey (snd (reset_prizes env adminKey s)))"
    using reads_depend_on_metafields [OF t [THEN conjunct1]]
    by (simp add: stats_reply [OF assms(2)])
  show "catalogOf lib s = Inr prizes \<longrightarrow>
            catalogOf lib (snd (reset_prizes_mo lib env adminKey now s)) = Inr (map resetToMax prizes)
            \<and> (\<forall>q\<in>set prizes.
                  remaining (resetToMax q) = max_count q
                  \<and> totalDistributed (resetToMax q) = totalDistributed q
                  \<and> (''remaining_count'', String (case max_count q of None \<Rightarrow> - 1 | Some m \<Rightarrow> m))
                       \<in> set (resetUpdates now q)
                  \<and> ''total_distributed'' \<notin> set (map fst (resetUpdates now q)))
            \<and> catalogOf lib (snd (reset_prizes_mo lib env adminKey now'
                                     (snd (reset_prizes_mo lib env adminKey now s))))
                = catalogOf lib (snd (reset_prizes_mo lib env adminKey now s))
            \<and> fst (stats_mo lib env adminKey
                      (snd (reset_prizes_mo lib env adminKey now'
                              (snd (reset_prizes_mo lib env adminKey now s)))))
                = fst (stats_mo lib env adminKey (snd (reset_prizes_mo lib env adminKey now s)))"
  proof
    assume cat: "catalogOf lib s = Inr prizes"
    note one = reset_prizes_mo_effect [OF assms cat, of now]
    note two = reset_prizes_mo_effect [OF one [THEN conjunct1] assms(2)
        one [THEN conjunct2, THEN conjunct1], of now']
    have same: "catalogOf lib (snd (reset_prizes_mo lib env adminKey now'
                                     (snd (reset_prizes_mo lib env adminKey now s))))
                = catalogOf lib (snd (reset_prizes_mo lib env adminKey now s))"
      using one two by (simp add: resetToMax_def)
    have each: "\<forall>q\<in>set prizes.
                  remaining (resetToMax q) = max_count q
                  \<and> totalDistributed (resetToMax q) = totalDistributed q
                  \<and> (''remaining_count'', String (case max_count q of None \<Rightarrow> - 1 | Some m \<Rightarrow> m))
                       \<in> set (resetUpdates now q)
                  \<and> ''total_distributed'' \<notin> set (map fst (resetUpdates now q))"
      by (simp add: resetToMax_def resetUpdates_def)
    show "catalogOf lib (snd (reset_prizes_mo lib env adminKey now s)) = Inr (map resetToMax prizes)
            \<and> (\<forall>q\<in>set prizes.
                  remaining (resetToMax q) = max_count q
                  \<and> totalDistributed (resetToMax q) = totalDistributed q
                  \<and> (''remaining_count'', String (case max_count q of None \<Rightarrow> - 1 | Some m \<Rightarrow> m))
                       \<in> set (resetUpdates now q)
                  \<and> ''total_distributed'' \<notin> set (map fst (resetUpdates now q)))
            \<and> catalogOf lib (snd (reset_prizes_mo lib env adminKey now'
                                     (snd (reset_prizes_mo lib env adminKey now s))))
                = catalogOf lib (snd (reset_prizes_mo lib env adminKey now s))
            \<and> fst (stats_mo lib env adminKey
                      (snd (reset_prizes_mo lib env adminKey now'
                              (snd (reset_prizes_mo lib env adminKey now s)))))
                = fst (stats_mo lib env adminKey (snd (reset_prizes_mo lib env adminKey now s)))"
      using one each same by (simp add: stats_mo_reply [OF assms(2)])
  qed
qed


lemma no_key_matches: "\<not> keyMismatch None None"
  by (simp add: keyMismatch_def strict_eq_def)

lemma kivo_distribution: "distributed (distributionOf kivoGoneShop) ''kivo_easy_lite'' = 1"
  by code_simp

theorem reset_restores_caps_idempotently_witness:
  "map_of (countsOf kivoGoneShop) ''kivo_easy_lite'' = Some (Some 0)
   \<and> map_of (countsOf (snd (reset_prizes None None kivoGoneShop))) ''kivo_easy_lite'' = Some (Some 1)
   \<and> distributed (distributionOf (snd (reset_prizes None None kivoGoneShop))) ''kivo_easy_lite'' = 1
   \<and> fst (stats None None (snd (reset_prizes None None (snd (reset_prizes None None kivoGoneShop)))))
       = fst (stats None None (snd (reset_prizes None None kivoGoneShop)))
   \<and> catalogOf wholePercent
         (snd (reset_prizes_mo wholePercent None None ''2025-02-01T00:00:00.000Z'' playedShop_mo))
       = Inr [prizeA\<lparr>totalDistributed := 1\<rparr>, prizeB]
   \<and> fst (stats_mo wholePercent None None
             (snd (reset_prizes_mo wholePercent None None ''2025-02-02T00:00:00.000Z''
                     (snd (reset_prizes_mo wholePercent None None ''2025-02-01T00:00:00.000Z''
                             playedShop_mo)))))
       = fst (stats_mo wholePercent None None
               (snd (reset_prizes_mo wholePercent None None ''2025-02-01T00:00:00.000Z'' playedShop_mo)))"
proof -
  note k = kivo_facts
  note m = played_mo_facts
  let ?A = "prizeA\<lparr>remaining := Some 0, totalDistributed := 1\<rparr>"
  have kivo: "\<lparr>prize_id = ''kivo_easy_lite'', label = ''Kivo Easy Lite'', prob = 0.001, max_count = Some 1\<rparr>
                \<in> set PRIZES"
    by (simp add: PRIZES_def)
  have cat: "catalogOf wholePercent playedShop_mo = Inr [?A, prizeB]"
    using m by simp
  have r: "map resetToMax [?A, prizeB] = [prizeA\<lparr>totalDistributed := 1\<rparr>, prizeB]"
    by (simp add: resetToMax_def prizeA_def prizeB_def)
  note w = reset_restores_caps_idempotently [OF k [THEN conjunct1] no_key_matches]
  note w' = reset_restores_caps_idempotently [OF m [THEN conjunct1] no_key_matches,
      where lib = wholePercent and prizes = "[?A, prizeB]"
        and now = "''2025-02-01T00:00:00.000Z''" and now' = "''2025-02-02T00:00:00.000Z''",
      THEN conjunct2, THEN conjunct2, THEN conjunct2, THEN conjunct2, rule_format, OF cat,
      unfolded r]
  have a: "map_of (countsOf (snd (reset_prizes None None kivoGoneShop))) ''kivo_easy_lite'' = Some (Some 1)"
    using w [THEN conjunct1, rule_format, OF kivo] by simp
  have b: "distributed (distributionOf (snd (reset_prizes None None kivoGoneShop))) ''kivo_easy_lite'' = 1"
    using w [THEN conjunct2, THEN conjunct1] kivo_distribution by simp
  have c: "fst (stats None None (snd (reset_prizes None None (snd (reset_prizes None None kivoGoneShop)))))
       = fst (stats None None (snd (reset_prizes None None kivoGoneShop)))"
    using w [THEN conjunct2, THEN conjunct2, THEN conjunct2, THEN conjunct1] .
  have d: "catalogOf wholePercent
         (snd (reset_prizes_mo wholePercent None None ''2025-02-01T00:00:00.000Z'' playedShop_mo))
       = Inr [prizeA\<lparr>totalDistributed := 1\<rparr>, prizeB]"
    using w' by blast
  have e: "fst (stats_mo wholePercent None None
             (snd (reset_prizes_mo wholePercent None None ''2025-02-02T00:00:00.000Z''
                     (snd (reset_prizes_mo wholePercent None None ''2025-02-01T00:00:00.000Z''
                             playedShop_mo)))))
       = fst (stats_mo wholePercent None None
               (snd (reset_prizes_mo wholePercent None None ''2025-02-01T00:00:00.000Z'' playedShop_mo)))"
    using w' by blast
  from k a b c d e show ?thesis by blast
qed

section \<open>The timestamp of a counter write\<close>

lemma ext_refl: "\<exists>new. requests s = requests s @ new \<and> list_all P new"
  by (rule exI [of _ "[]"]) simp

lemma ext_trans:
  assumes "\<exists>n1. requests s1 = requests s @ n1 \<and> list_all P n1"
    and "\<exists>n2. requests s2 = requests s1 @ n2 \<and> list_all P n2"
  shows "\<exists>n. requests s2 = requests s @ n \<and> list_all P n"
proof -
  obtain n1 n2 where "requests s1 = requests s @ n1" "list_all P n1"
    "requests s2 = requests s1 @ n2" "list_all P n2"
    using assms by blast
  then have "requests s2 = requests s @ (n1 @ n2) \<and> list_all P (n1 @ n2)"
    by simp
  then show ?thesis by blast
qed

lemma ext_sent: "P r \<Longrightarrow> \<exists>new. requests (sent r s) = requests s @ new \<and> list_all P new"
  by (rule exI [of _ "[r]"]) simp

lemma ext_addPrize_mo:
  "\<exists>new. requests (addPrizeToCustomer_mo c l now' s) = requests s @ new
          \<and> list_all (stampedWrite now) new"
  by (rule exI [of _ "[PutCustomerTags (customer_id c)
          (join '', '' (unique (existingTags c @ [''Spin Prize: '' @ l, ''Spin Date: '' @ currentDate now']))),
        PutCustomerNote (customer_id c) (''Wheel Spin Prize: '' @ l @ '' on '' @ now')]"])
    (simp add: addPrizeToCustomer_mo_def updateCustomerTags_def putCustomerNote_def Let_def
      stampedWrite_def)

lemma spinUpdates_stamped: "stampedWrite now (MetaobjectUpdate i (spinUpdates x now))"
  by (simp add: stampedWrite_def spinUpdates_def)

lemma resetUpdates_stamped: "stampedWrite now (MetaobjectUpdate i (resetUpdates now x))"
  by (simp add: stampedWrite_def resetUpdates_def)

lemma ext_update:
  "stampedWrite now (MetaobjectUpdate i ups) \<Longrightarrow>
     \<exists>new. requests (updatePrizeMetaobject i ups s) = requests s @ new
            \<and> list_all (stampedWrite now) new"
  by (rule exI [of _ "[MetaobjectUpdate i ups]"]) simp

lemma ext_draw_mo:
  "\<exists>new. requests (snd (draw_mo lib c u now s)) = requests s @ new
          \<and> list_all (stampedWrite now) new"
proof (cases "catalogOf lib s")
  case (Inl msg)
  then have "snd (draw_mo lib c u now s) = sent QueryMetaobjects s"
    by (simp add: draw_mo_def catalogOf_def getCurrentPrizes_alt split: if_splits)
  then show ?thesis
    using ext_sent [of "stampedWrite now" QueryMetaobjects s] by (simp add: stampedWrite_def)
next
  case (Inr prizes)
  have q: "\<exists>new. requests (sent QueryMetaobjects s) = requests s @ new
          \<and> list_all (stampedWrite now) new"
    by (rule ext_sent) (simp add: stampedWrite_def)
  have "\<exists>x. snd (draw_mo lib c u now s) =
          addPrizeToCustomer_mo c (label x) now
            (updatePrizeMetaobject (metaobjectId x) (spinUpdates x now) (sent QueryMetaobjects s))"
    by (cases "filter isAvailable_mo prizes = []")
      (auto simp: draw_mo_fallback [OF Inr] draw_mo_award [OF Inr])
  then obtain x where x: "snd (draw_mo lib c u now s) =
          addPrizeToCustomer_mo c (label x) now
            (updatePrizeMetaobject (metaobjectId x) (spinUpdates x now) (sent QueryMetaobjects s))"
    by blast
  show ?thesis
    unfolding x
    by (rule ext_trans [OF ext_trans [OF q ext_update [OF spinUpdates_stamped]] ext_addPrize_mo])
qed

lemma ext_spin_mo:
  "\<exists>new. requests (snd (spin_mo lib phone u now s)) = requests s @ new
          \<and> list_all (stampedWrite now) new"
proof (cases "phoneOf phone")
  case None
  then show ?thesis by (simp add: spin_mo_def ext_refl)
next
  case (Some ph)
  show ?thesis
  proof (cases "ph = []")
    case True
    with Some show ?thesis by (simp add: spin_mo_def ext_refl)
  next
    case False
    have se: "\<exists>new. requests (sent (SearchCustomers ph) s) = requests s @ new
          \<and> list_all (stampedWrite now) new"
      by (rule ext_sent) (simp add: stampedWrite_def)
    show ?thesis
    proof (cases "find (\<lambda>c. phone_number c = ph) (customers s)")
      case None
      let ?s1 = "sent (SearchCustomers ph) s"
      have cr: "\<exists>new. requests (snd (createCustomerWithPhone ph ?s1)) = requests ?s1 @ new
          \<and> list_all (stampedWrite now) new"
        by (rule exI [of _ "[PostCustomer ph]"])
          (simp add: createCustomerWithPhone_def Let_def stampedWrite_def)
      have "snd (spin_mo lib phone u now s) =
          snd (draw_mo lib (fst (createCustomerWithPhone ph ?s1)) u now
                 (snd (createCustomerWithPhone ph ?s1)))"
        using Some False None by (simp add: spin_mo_def findCustomerByPhone_def case_prod_unfold)
      then show ?thesis
        using ext_trans [OF ext_trans [OF se cr] ext_draw_mo] by simp
    next
      case (Some c)
      show ?thesis
      proof (cases "hasPlayedWheel_mo c")
        case True
        with Some \<open>phoneOf phone = Some ph\<close> False se show ?thesis
          by (simp add: spin_mo_def findCustomerByPhone_def)
      next
        case np: False
        have "snd (spin_mo lib phone u now s) = snd (draw_mo lib c u now (sent (SearchCustomers ph) s))"
          using Some \<open>phoneOf phone = Some ph\<close> False np
          by (simp add: spin_mo_def findCustomerByPhone_def)
        then show ?thesis
          using ext_trans [OF se ext_draw_mo] by simp
      qed
    qed
  qed
qed

lemma issued_append: "requests s' = requests s @ new \<Longrightarrow> issued s s' = new"
  by (simp add: issued_def)

lemma spin_mo_writes_stamped:
  "list_all (stampedWrite now) (issued s (snd (spin_mo lib phone u now s)))"
  using ext_spin_mo [of lib phone u now s] issued_append by fastforce

lemma ext_fold_reset:
  "\<exists>new. requests (fold (resetPrize now) ps s) = requests s @ new
          \<and> list_all (stampedWrite now) new"
proof (induction ps arbitrary: s)
  case Nil
  then show ?case by (simp add: ext_refl)
next
  case (Cons p ps)
  have "\<exists>new. requests (resetPrize now p s) = requests s @ new \<and> list_all (stampedWrite now) new"
    unfolding resetPrize_def by (rule ext_update [OF resetUpdates_stamped])
  then show ?case
    using ext_trans [OF _ Cons.IH [of "resetPrize now p s"]] by simp
qed

lemma reset_mo_writes_stamped:
  "list_all (stampedWrite now) (issued s (snd (reset_prizes_mo lib env adminKey now s)))"
proof -
  have q: "\<exists>new. requests (sent QueryMetaobjects s) = requests s @ new
          \<and> list_all (stampedWrite now) new"
    by (rule ext_sent) (simp add: stampedWrite_def)
  have "\<exists>new. requests (snd (reset_prizes_mo lib env adminKey now s)) = requests s @ new
          \<and> list_all (stampedWrite now) new"
  proof (cases "keyMismatch adminKey env")
    case True
    then show ?thesis by (simp add: reset_prizes_mo_def ext_refl)
  next
    case False
    show ?thesis
    proof (cases "catalogOf lib s")
      case (Inl msg)
      then have "snd (reset_prizes_mo lib env adminKey now s) = sent QueryMetaobjects s"
        using False
        by (simp add: reset_prizes_mo_def catalogOf_def getCurrentPrizes_alt split: if_splits)
      with q show ?thesis by simp
    next
      case (Inr prizes)
      then have "snd (reset_prizes_mo lib env adminKey now s)
                   = fold (resetPrize now) prizes (sent QueryMetaobjects s)"
        using False by (simp add: reset_prizes_mo_def catalogOf_InrD(3))
      then show ?thesis
        using ext_trans [OF q ext_fold_reset] by simp
    qed
  qed
  then show ?thesis
    using issued_append by fastforce
qed

lemma cw_trans:
  assumes "\<exists>n1. requests s1 = requests s @ n1 \<and> filter is_counter_write n1 = l1"
    and "\<exists>n2. requests s2 = requests s1 @ n2 \<and> filter is_counter_write n2 = l2"
  shows "\<exists>n. requests s2 = requests s @ n \<and> filter is_counter_write n = l1 @ l2"
proof -
  obtain n1 n2 where "requests s1 = requests s @ n1" "filter is_counter_write n1 = l1"
    "requests s2 = requests s1 @ n2" "filter is_counter_write n2 = l2"
    using assms by blast
  then have "requests s2 = requests s @ (n1 @ n2) \<and> filter is_counter_write (n1 @ n2) = l1 @ l2"
    by simp
  then show ?thesis by blast
qed

lemma cw_sent:
  "\<exists>new. requests (sent r s) = requests s @ new
      \<and> filter is_counter_write new = (if is_counter_write r then [r] else [])"
  by (rule exI [of _ "[r]"]) simp

lemma cw_addPrize_mo:
  "\<exists>new. requests (addPrizeToCustomer_mo c l now s) = requests s @ new
          \<and> filter is_counter_write new = []"
  by (rule exI [of _ "[PutCustomerTags (customer_id c)
          (join '', '' (unique (existingTags c @ [''Spin Prize: '' @ l, ''Spin Date: '' @ currentDate now]))),
        PutCustomerNote (customer_id c) (''Wheel Spin Prize: '' @ l @ '' on '' @ now)]"])
    (simp add: addPrizeToCustomer_mo_def updateCustomerTags_def putCustomerNote_def Let_def)

lemma cw_update:
  "\<exists>new. requests (updatePrizeMetaobject i ups s) = requests s @ new
            \<and> filter is_counter_write new = [MetaobjectUpdate i ups]"
  by (rule exI [of _ "[MetaobjectUpdate i ups]"]) simp

lemma cw_draw_mo:
  assumes cat: "catalogOf lib s = Inr prizes"
  shows "\<exists>new. requests (snd (draw_mo lib c u now s)) = requests s @ new
          \<and> filter is_counter_write new =
              [MetaobjectUpdate (metaobjectId (awarded_mo u prizes))
                 (spinUpdates (awarded_mo u prizes) now)]"
proof -
  have x: "snd (draw_mo lib c u now s) =
          addPrizeToCustomer_mo c (label (awarded_mo u prizes)) now
            (updatePrizeMetaobject (metaobjectId (awarded_mo u prizes))
               (spinUpdates (awarded_mo u prizes) now) (sent QueryMetaobjects s))"
    by (cases "filter isAvailable_mo prizes = []")
      (simp_all add: draw_mo_fallback [OF cat] draw_mo_award [OF cat] awarded_mo_def)
  show ?thesis
    unfolding x
    using cw_trans [OF cw_trans [OF cw_sent [of QueryMetaobjects s] cw_update] cw_addPrize_mo]
    by simp
qed

lemma cw_spin_mo:
  assumes t: "trim p \<noteq> []" and np: "notPlayed_mo s (trim p)"
    and cat: "catalogOf lib s = Inr prizes"
  shows "filter is_counter_write (issued s (snd (spin_mo lib (Some (JStr p)) u now s))) =
              [MetaobjectUpdate (metaobjectId (awarded_mo u prizes))
                 (spinUpdates (awarded_mo u prizes) now)]"
proof -
  let ?s1 = "sent (SearchCustomers (trim p)) s"
  have se: "\<exists>new. requests ?s1 = requests s @ new \<and> filter is_counter_write new = []"
    using cw_sent [of "SearchCustomers (trim p)" s] by simp
  have c1: "catalogOf lib ?s1 = Inr prizes"
    using cat by (simp add: catalogOf_cong [of ?s1 s])
  have "\<exists>new. requests (snd (spin_mo lib (Some (JStr p)) u now s)) = requests s @ new
          \<and> filter is_counter_write new =
              [MetaobjectUpdate (metaobjectId (awarded_mo u prizes))
                 (spinUpdates (awarded_mo u prizes) now)]"
  proof (cases "find (\<lambda>c. phone_number c = trim p) (customers s)")
    case None
    let ?s2 = "snd (createCustomerWithPhone (trim p) ?s1)"
    have cr: "\<exists>new. requests ?s2 = requests ?s1 @ new \<and> filter is_counter_write new = []"
      by (rule exI [of _ "[PostCustomer (trim p)]"])
        (simp add: createCustomerWithPhone_def Let_def)
    have c2: "catalogOf lib ?s2 = Inr prizes"
      using c1 createCustomer_frame [where ph = "trim p" and s = ?s1]
      by (simp add: catalogOf_cong [of ?s2 ?s1])
    have "snd (spin_mo lib (Some (JStr p)) u now s) =
          snd (draw_mo lib (fst (createCustomerWithPhone (trim p) ?s1)) u now ?s2)"
      using t None by (simp add: spin_mo_def findCustomerByPhone_def case_prod_unfold)
    then show ?thesis
      using cw_trans [OF cw_trans [OF se cr] cw_draw_mo [OF c2]] by simp
  next
    case (Some c)
    have "snd (spin_mo lib (Some (JStr p)) u now s) = snd (draw_mo lib c u now ?s1)"
      using Some t np by (simp add: spin_mo_def findCustomerByPhone_def notPlayed_mo_def)
    then show ?thesis
      using cw_trans [OF se cw_draw_mo [OF c1]] by simp
  qed
  then show ?thesis
    using issued_append by fastforce
qed

lemma cw_fold_reset:
  "\<exists>new. requests (fold (resetPrize now) ps s) = requests s @ new
          \<and> filter is_counter_write new =
              map (\<lambda>p. MetaobjectUpdate (metaobjectId p) (resetUpdates now p)) ps"
proof (induction ps arbitrary: s)
  case Nil
  then show ?case by simp
next
  case (Cons p ps)
  have st: "\<exists>new. requests (resetPrize now p s) = requests s @ new
          \<and> filter is_counter_write new = [MetaobjectUpdate (metaobjectId p) (resetUpdates now p)]"
    unfolding resetPrize_def by (rule cw_update)
  show ?case
    using cw_trans [OF st Cons.IH [of "resetPrize now p s"]] by simp
qed

lemma cw_reset_mo:
  assumes k: "\<not> keyMismatch adminKey env" and cat: "catalogOf lib s = Inr prizes"
  shows "filter is_counter_write (issued s (snd (reset_prizes_mo lib env adminKey now s)))
           = map (\<lambda>p. MetaobjectUpdate (metaobjectId p) (resetUpdates now p)) prizes"
proof -
  have "snd (reset_prizes_mo lib env adminKey now s)
                   = fold (resetPrize now) prizes (sent QueryMetaobjects s)"
    using k by (simp add: reset_prizes_mo_def catalogOf_InrD(3) [OF cat])
  then have "\<exists>new. requests (snd (reset_prizes_mo lib env adminKey now s)) = requests s @ new
          \<and> filter is_counter_write new =
              map (\<lambda>p. MetaobjectUpdate (metaobjectId p) (resetUpdates now p)) prizes"
    using cw_trans [OF cw_sent [of QueryMetaobjects s] cw_fold_reset] by simp
  then show ?thesis
    using issued_append by fastforce
qed

text \<open>
  The metafield-backed server (index.js) writes its counters as whole
  metafields. The first spin of the participant 999 in the empty store puts
  the counts metafield and the distribution metafield; each put sends the
  fields \<^verbatim>\<open>id\<close>, \<^verbatim>\<open>value\<close> and \<^verbatim>\<open>type\<close>, the value has one entry per prize, and
  no field \<^verbatim>\<open>last_updated\<close> is sent.
\<close>

theorem metafield_writes_carry_no_timestamp:
  "filter is_counter_write
     (issued emptyShop
        (snd (spin (Some (JStr ''999'')) (1/2) ''2025-01-02T03:04:05.000Z'' emptyShop))) =
     [PutMetafield 2
        [(''kivo_easy_lite'', Some 1), (''1gm_gold_coin'', Some 5), (''free_helmet'', Some 20),
         (''mobile_holder'', Some 19), (''water_bottle'', Some 20), (''better_luck'', None)],
      PutMetafield 3
        [(''kivo_easy_lite'', Some 0), (''1gm_gold_coin'', Some 0), (''free_helmet'', Some 0),
         (''mobile_holder'', Some 1), (''water_bottle'', Some 0), (''better_luck'', Some 0)]]
   \<and> list_all (\<lambda>r. \<not> stamped r)
       (filter is_counter_write
          (issued emptyShop
             (snd (spin (Some (JStr ''999'')) (1/2) ''2025-01-02T03:04:05.000Z'' emptyShop))))
   \<and> map (\<lambda>r. map fst (written_fields r))
       (filter is_counter_write
          (issued emptyShop
             (snd (spin (Some (JStr ''999'')) (1/2) ''2025-01-02T03:04:05.000Z'' emptyShop)))) =
       [[''id'', ''value'', ''type''], [''id'', ''value'', ''type'']]"
  by code_simp

text \<open>
  Claim C9. In the metaobject variant every write of counters stamps
  \<^verbatim>\<open>last_updated\<close> with the current time: each counter write that a spin or a
  reset sends carries the field, whatever the request and the store. A spin
  of a participant who has not played, over a loadable catalog, sends exactly
  one counter write, the update of the awarded prize, with the incremented
  \<^verbatim>\<open>total_distributed\<close> and \<^verbatim>\<open>last_updated\<close>; an authorised reset sends one
  stamped update per prize of the catalog. The current time is one value per
  request in this model.
\<close>

theorem catalog_writes_stamp_last_updated:
  "list_all (stampedWrite now) (issued s (snd (spin_mo lib phone u now s)))
   \<and> list_all (stampedWrite now) (issued s (snd (reset_prizes_mo lib env adminKey now s)))
   \<and> (trim p \<noteq> [] \<and> notPlayed_mo s (trim p) \<and> catalogOf lib s = Inr prizes \<longrightarrow>
        filter is_counter_write (issued s (snd (spin_mo lib (Some (JStr p)) u now s))) =
          [MetaobjectUpdate (metaobjectId (awarded_mo u prizes))
             (spinUpdates (awarded_mo u prizes) now)]
        \<and> (''total_distributed'', String (totalDistributed (awarded_mo u prizes) + 1))
            \<in> set (spinUpdates (awarded_mo u prizes) now)
        \<and> (''last_updated'', now) \<in> set (spinUpdates (awarded_mo u prizes) now))
   \<and> (\<not> keyMismatch adminKey env \<and> catalogOf lib s = Inr prizes \<longrightarrow>
        filter is_counter_write (issued s (snd (reset_prizes_mo lib env adminKey now s))) =
          map (\<lambda>x. MetaobjectUpdate (metaobjectId x) (resetUpdates now x)) prizes
        \<and> list_all (\<lambda>x. (''last_updated'', now) \<in> set (resetUpdates now x)) prizes)"
proof (intro conjI)
  show "list_all (stampedWrite now) (issued s (snd (spin_mo lib phone u now s)))"
    by (rule spin_mo_writes_stamped)
  show "list_all (stampedWrite now) (issued s (snd (reset_prizes_mo lib env adminKey now s)))"
    by (rule reset_mo_writes_stamped)
  show "trim p \<noteq> [] \<and> notPlayed_mo s (trim p) \<and> catalogOf lib s = Inr prizes \<longrightarrow>
        filter is_counter_write (issued s (snd (spin_mo lib (Some (JStr p)) u now s))) =
          [MetaobjectUpdate (metaobjectId (awarded_mo u prizes))
             (spinUpdates (awarded_mo u prizes) now)]
        \<and> (''total_distributed'', String (totalDistributed (awarded_mo u prizes) + 1))
            \<in> set (spinUpdates (awarded_mo u prizes) now)
        \<and> (''last_updated'', now) \<in> set (spinUpdates (awarded_mo u prizes) now)"
    by (simp add: cw_spin_mo spinUpdates_def)
  show "\<not> keyMismatch adminKey env \<and> catalogOf lib s = Inr prizes \<longrightarrow>
        filter is_counter_write (issued s (snd (reset_prizes_mo lib env adminKey now s))) =
          map (\<lambda>x. MetaobjectUpdate (metaobjectId x) (resetUpdates now x)) prizes
        \<and> list_all (\<lambda>x. (''last_updated'', now) \<in> set (resetUpdates now x)) prizes"
    by (simp add: cw_reset_mo resetUpdates_def list_all_iff)
qed

theorem catalog_writes_stamp_last_updated_witness:
  "filter is_counter_write
     (issued scenarioShop
        (snd (spin_mo wholePercent (Some (JStr ''999'')) (1/5) ''2025-01-02T03:04:05.000Z''
                scenarioShop))) =
     [MetaobjectUpdate ''gid://shopify/Metaobject/1''
        [(''remaining_count'', ''0''), (''is_available'', ''false''),
         (''total_distributed'', ''1''), (''last_updated'', ''2025-01-02T03:04:05.000Z'')]]
   \<and> filter is_counter_write
     (issued scenarioShop
        (snd (reset_prizes_mo wholePercent (Some ''k'') (Some (JStr ''k''))
                ''2025-01-02T03:04:05.000Z'' scenarioShop))) =
     [MetaobjectUpdate ''gid://shopify/Metaobject/1''
        [(''remaining_count'', ''1''), (''is_available'', ''true''),
         (''last_updated'', ''2025-01-02T03:04:05.000Z'')],
      MetaobjectUpdate ''gid://shopify/Metaobject/2''
        [(''remaining_count'', ''-1''), (''is_available'', ''true''),
         (''last_updated'', ''2025-01-02T03:04:05.000Z'')]]"
proof -
  have h1: "trim ''999'' \<noteq> [] \<and> notPlayed_mo scenarioShop (trim ''999'')
            \<and> catalogOf wholePercent scenarioShop = Inr [prizeA, prizeB]"
    by code_simp
  have h2: "\<not> keyMismatch (Some (JStr ''k'')) (Some ''k'')
            \<and> catalogOf wholePercent scenarioShop = Inr [prizeA, prizeB]"
    by code_simp
  have e1: "MetaobjectUpdate (metaobjectId (awarded_mo (1/5) [prizeA, prizeB]))
             (spinUpdates (awarded_mo (1/5) [prizeA, prizeB]) ''2025-01-02T03:04:05.000Z'') =
            MetaobjectUpdate ''gid://shopify/Metaobject/1''
              [(''remaining_count'', ''0''), (''is_available'', ''false''),
               (''total_distributed'', ''1''), (''last_updated'', ''2025-01-02T03:04:05.000Z'')]"
    by code_simp
  have e2: "map (\<lambda>x. MetaobjectUpdate (metaobjectId x) (resetUpdates ''2025-01-02T03:04:05.000Z'' x))
              [prizeA, prizeB] =
     [MetaobjectUpdate ''gid://shopify/Metaobject/1''
        [(''remaining_count'', ''1''), (''is_available'', ''true''),
         (''last_updated'', ''2025-01-02T03:04:05.000Z'')],
      MetaobjectUpdate ''gid://shopify/Metaobject/2''
        [(''remaining_count'', ''-1''), (''is_available'', ''true''),
         (''last_updated'', ''2025-01-02T03:04:05.000Z'')]]"
    by code_simp
  note a = catalog_writes_stamp_last_updated
      [where s = scenarioShop and lib = wholePercent and p = "''999''" and u = "1/5"
         and now = "''2025-01-02T03:04:05.000Z''" and prizes = "[prizeA, prizeB]"
         and env = "Some ''k''" and adminKey = "Some (JStr ''k'')"]
  have c1: "filter is_counter_write
     (issued scenarioShop
        (snd (spin_mo wholePercent (Some (JStr ''999'')) (1/5) ''2025-01-02T03:04:05.000Z''
                scenarioShop))) =
     [MetaobjectUpdate (metaobjectId (awarded_mo (1/5) [prizeA, prizeB]))
             (spinUpdates (awarded_mo (1/5) [prizeA, prizeB]) ''2025-01-02T03:04:05.000Z'')]"
    using a [THEN conjunct2, THEN conjunct2, THEN conjunct1, rule_format, OF h1] by blast
  have c2: "filter is_counter_write
     (issued scenarioShop
        (snd (reset_prizes_mo wholePercent (Some ''k'') (Some (JStr ''k''))
                ''2025-01-02T03:04:05.000Z'' scenarioShop))) =
      map (\<lambda>x. MetaobjectUpdate (metaobjectId x) (resetUpdates ''2025-01-02T03:04:05.000Z'' x))
              [prizeA, prizeB]"
    using a [THEN conjunct2, THEN conjunct2, THEN conjunct2, rule_format, OF h2] by blast
  show ?thesis
    unfolding c1 c2 e1 e2 by simp
qed

end
